theory Spec2Isabelle
  imports Main "HOL-Library.Word" "HOL-Library.AList"
begin

section \<open>Time and durations\<close>

text \<open>
  Go's \<open>time.Time\<close> is modelled as the number of nanoseconds since its zero value
  (January 1, year 1, 00:00:00 UTC), an unbounded integer: the instants the tracker
  handles are clock readings plus or minus one \<open>Duration\<close>, far inside the range of
  \<open>time.Time\<close>. All instants lie on one time line, on which \<open>After\<close> and \<open>Before\<close>
  compare; the wall and monotonic readings of \<open>time.Now()\<close> are not told apart. A
  \<open>time.Duration\<close> is an \<open>int64\<close> count of nanoseconds, so its arithmetic wraps
  around. Go's \<open>int\<close> is taken to be 64 bits wide. Every operation of the tracker
  returns a nil error; the error result is kept, as an option.
\<close>

type_synonym Time = int
type_synonym Duration = "64 word"
type_synonym go_int = "64 word"
type_synonym error = string

definition zeroTime :: Time where
  "zeroTime = 0"

definition Second :: Duration where
  "Second = 1000000000"

definition IsZero :: "Time \<Rightarrow> bool" where
  "IsZero t = (t = 0)"

definition After :: "Time \<Rightarrow> Time \<Rightarrow> bool" where
  "After t u = (u < t)"

definition Before :: "Time \<Rightarrow> Time \<Rightarrow> bool" where
  "Before t u = (t < u)"

definition Add :: "Time \<Rightarrow> Duration \<Rightarrow> Time" where
  "Add t d = t + sint d"

text \<open>\<open>t.Sub(u)\<close> saturates at the largest and smallest \<open>Duration\<close>.\<close>

definition Sub :: "Time \<Rightarrow> Time \<Rightarrow> Duration" where
  "Sub t u =
     (if t - u > 9223372036854775807 then word_of_int 9223372036854775807
      else if t - u < - 9223372036854775808 then word_of_int (- 9223372036854775808)
      else word_of_int (t - u))"

text \<open>
  A reading of \<open>time.Now()\<close>: the system clock counts from the Unix epoch, which is
  62135596800 seconds after the zero \<open>Time\<close>.
\<close>

definition clockReading :: "Time \<Rightarrow> bool" where
  "clockReading now = (62135596800 * 1000000000 \<le> now)"

section \<open>Configuration\<close>

record AutoDisableConfig =
  FailureThreshold :: go_int
  TimeWindowSeconds :: go_int
  DisableDurationSeconds :: go_int

definition defaultConfig :: AutoDisableConfig where
  "defaultConfig =
     \<lparr>FailureThreshold = 5, TimeWindowSeconds = 60, DisableDurationSeconds = 300\<rparr>"

text \<open>
  Modelled from the spec: the method \<open>(*config.AutoDisableConfig).GetEffectiveConfig\<close> of
  package \<open>internal/config\<close> is not among the sources. The spec says that any individual
  zero/unset field within a chosen config level is filled from the hard default
  \<open>{threshold=5, window=60s, duration=300s}\<close>; its test calls it on a nil receiver and
  expects the default. The receiver is a pointer, \<open>None\<close> when nil.
\<close>

definition AutoDisableConfig_GetEffectiveConfig :: "AutoDisableConfig option \<Rightarrow> AutoDisableConfig" where
  "AutoDisableConfig_GetEffectiveConfig c =
     (case c of
        None \<Rightarrow> \<lparr>FailureThreshold = 5, TimeWindowSeconds = 60, DisableDurationSeconds = 300\<rparr>
      | Some cfg \<Rightarrow>
          \<lparr>FailureThreshold = (if FailureThreshold cfg = 0 then 5 else FailureThreshold cfg),
           TimeWindowSeconds = (if TimeWindowSeconds cfg = 0 then 60 else TimeWindowSeconds cfg),
           DisableDurationSeconds =
             (if DisableDurationSeconds cfg = 0 then 300 else DisableDurationSeconds cfg)\<rparr>)"

text \<open>\<open>GetEffectiveAutoDisableConfig\<close> of \<open>internal/failure/integration.go\<close>.\<close>

definition GetEffectiveAutoDisableConfig ::
  "AutoDisableConfig option \<Rightarrow> AutoDisableConfig option \<Rightarrow> AutoDisableConfig option
    \<Rightarrow> AutoDisableConfig" where
  "GetEffectiveAutoDisableConfig globalCfg vendorConfig modelConfig =
     (if modelConfig \<noteq> None then AutoDisableConfig_GetEffectiveConfig modelConfig
      else if vendorConfig \<noteq> None then AutoDisableConfig_GetEffectiveConfig vendorConfig
      else if globalCfg \<noteq> None then AutoDisableConfig_GetEffectiveConfig globalCfg
      else \<lparr>FailureThreshold = 5, TimeWindowSeconds = 60, DisableDurationSeconds = 300\<rparr>)"

section \<open>Failure records and the tracker\<close>

record FailureRecord =
  Vendor :: string
  Model :: string
  FailureCount :: "32 word"
  FirstFailure :: Time
  LastFailure :: Time
  DisabledAt :: Time
  DisabledUntil :: Time
  EffectiveConfig :: AutoDisableConfig

record DisabledModel =
  dm_Vendor :: string
  dm_Model :: string
  dm_FailureCount :: go_int
  dm_DisabledAt :: Time
  dm_DisabledUntil :: Time
  dm_RemainingTime :: Duration
  dm_FailureThreshold :: go_int

text \<open>
  The tracker's \<open>sync.Map\<close> is an association list from keys to records, read with
  \<open>map_of\<close> and stored to with \<open>AList.update\<close>; the order of the list stands for the
  unspecified order in which \<open>Range\<close> visits the entries. The ticker, the stop channel
  and the locks are left out: every operation is one atomic step that takes the reading
  of \<open>time.Now()\<close> as an argument.
\<close>

record failureTracker =
  records :: "(string \<times> FailureRecord) list"
  globalConfig :: "AutoDisableConfig option"

definition emptyTracker :: "AutoDisableConfig option \<Rightarrow> failureTracker" where
  "emptyTracker g = \<lparr>records = [], globalConfig = g\<rparr>"

definition key :: "string \<Rightarrow> string \<Rightarrow> string" where
  "key vendor model = vendor @ '':'' @ model"

definition GetEffectiveConfig :: "failureTracker \<Rightarrow> string \<Rightarrow> string \<Rightarrow> AutoDisableConfig" where
  "GetEffectiveConfig t vendor model =
     (if globalConfig t = None
      then \<lparr>FailureThreshold = 5, TimeWindowSeconds = 60, DisableDurationSeconds = 300\<rparr>
      else AutoDisableConfig_GetEffectiveConfig (globalConfig t))"

definition loadOrStore ::
  "failureTracker \<Rightarrow> string \<Rightarrow> string \<Rightarrow> string \<Rightarrow> AutoDisableConfig
    \<Rightarrow> failureTracker \<times> FailureRecord \<times> bool" where
  "loadOrStore t k vendor model cfg =
     (case map_of (records t) k of
        Some actual \<Rightarrow> (t, actual, True)
      | None \<Rightarrow>
          (let fresh = \<lparr>Vendor = vendor, Model = model, FailureCount = 0,
                        FirstFailure = zeroTime, LastFailure = zeroTime,
                        DisabledAt = zeroTime, DisabledUntil = zeroTime,
                        EffectiveConfig = cfg\<rparr>
           in (t\<lparr>records := AList.update k fresh (records t)\<rparr>, fresh, False)))"

definition TrackFailure ::
  "failureTracker \<Rightarrow> string \<Rightarrow> string \<Rightarrow> Time \<Rightarrow> failureTracker \<times> error option" where
  "TrackFailure t vendor model now =
     (let k = key vendor model;
          effectiveConfig = GetEffectiveConfig t vendor model;
          (t1, record0, exists) = loadOrStore t k vendor model effectiveConfig;
          record1 = (if \<not> exists
                     then record0\<lparr>FailureCount := 1, FirstFailure := now\<rparr>
                     else record0\<lparr>FailureCount := FailureCount record0 + 1\<rparr>);
          record2 = record1\<lparr>LastFailure := now\<rparr>;
          windowStart = Add now (- TimeWindowSeconds effectiveConfig * Second);
          record3 = (if After (FirstFailure record2) windowStart
                        \<and> sint (FailureThreshold effectiveConfig) \<le> sint (FailureCount record2)
                     then record2\<lparr>DisabledAt := now,
                            DisabledUntil :=
                              Add now (DisableDurationSeconds effectiveConfig * Second)\<rparr>
                     else record2)
      in (t1\<lparr>records := AList.update k record3 (records t1)\<rparr>, None))"

definition TrackSuccess ::
  "failureTracker \<Rightarrow> string \<Rightarrow> string \<Rightarrow> failureTracker \<times> error option" where
  "TrackSuccess t vendor model =
     (let k = key vendor model
      in case map_of (records t) k of
           None \<Rightarrow> (t, None)
         | Some rec \<Rightarrow>
             (let rec1 = (if IsZero (DisabledUntil rec)
                          then rec\<lparr>FailureCount := 0, FirstFailure := zeroTime\<rparr>
                          else rec)
              in (t\<lparr>records := AList.update k rec1 (records t)\<rparr>, None)))"

definition IsDisabled ::
  "failureTracker \<Rightarrow> string \<Rightarrow> string \<Rightarrow> Time \<Rightarrow> bool \<times> error option" where
  "IsDisabled t vendor model now =
     (let k = key vendor model
      in case map_of (records t) k of
           None \<Rightarrow> (False, None)
         | Some rec \<Rightarrow>
             (if \<not> IsZero (DisabledAt rec) \<and> Before now (DisabledUntil rec)
              then (True, None)
              else (False, None)))"

text \<open>
  \<open>GetDisabledModels\<close> reads the clock once for the scan (\<open>now\<close>) and again in every
  \<open>time.Until\<close>; \<open>untilNow k\<close> is the reading taken for the entry under key \<open>k\<close>.
\<close>

definition GetDisabledModels ::
  "failureTracker \<Rightarrow> Time \<Rightarrow> (string \<Rightarrow> Time) \<Rightarrow> DisabledModel list" where
  "GetDisabledModels t now untilNow =
     map (\<lambda>(k, record).
            \<lparr>dm_Vendor = Vendor record,
             dm_Model = Model record,
             dm_FailureCount = scast (FailureCount record),
             dm_DisabledAt = DisabledAt record,
             dm_DisabledUntil = DisabledUntil record,
             dm_RemainingTime = Sub (DisabledUntil record) (untilNow k),
             dm_FailureThreshold = FailureThreshold (EffectiveConfig record)\<rparr>)
       (filter (\<lambda>(k, record). \<not> IsZero (DisabledAt record) \<and> Before now (DisabledUntil record))
          (records t))"

definition EnableModel ::
  "failureTracker \<Rightarrow> string \<Rightarrow> string \<Rightarrow> failureTracker \<times> error option" where
  "EnableModel t vendor model =
     (let k = key vendor model
      in case map_of (records t) k of
           None \<Rightarrow> (t, None)
         | Some rec \<Rightarrow>
             (let rec1 = rec\<lparr>FailureCount := 0, FirstFailure := zeroTime,
                            LastFailure := zeroTime, DisabledAt := zeroTime,
                            DisabledUntil := zeroTime\<rparr>
              in (t\<lparr>records := AList.update k rec1 (records t)\<rparr>, None)))"

definition GetFailureCount ::
  "failureTracker \<Rightarrow> string \<Rightarrow> string \<Rightarrow> 32 word \<times> error option" where
  "GetFailureCount t vendor model =
     (let k = key vendor model
      in case map_of (records t) k of
           None \<Rightarrow> (0, None)
         | Some rec \<Rightarrow> (FailureCount rec, None))"

text \<open>
  One pass of \<open>checkAndReenable\<close>: \<open>Range\<close> visits every entry and the callback clears
  the expired ones in place.
\<close>

definition checkAndReenable :: "failureTracker \<Rightarrow> Time \<Rightarrow> failureTracker" where
  "checkAndReenable t now =
     t\<lparr>records :=
         map (\<lambda>(k, record).
                if \<not> IsZero (DisabledAt record) \<and> After now (DisabledUntil record)
                then (k, record\<lparr>FailureCount := 0, FirstFailure := zeroTime,
                                LastFailure := zeroTime, DisabledAt := zeroTime,
                                DisabledUntil := zeroTime\<rparr>)
                else (k, record))
           (records t)\<rparr>"

section \<open>Routing adapter\<close>

text \<open>
  \<open>RoutingIntegration\<close> holds a \<open>FailureTracker\<close> interface value, possibly nil; of the
  interface only \<open>IsDisabled\<close> is called, so the field is that method, \<open>None\<close> when nil.
\<close>

type_synonym RoutingIntegration = "(string \<Rightarrow> string \<Rightarrow> bool \<times> error option) option"

definition IsModelDisabled :: "RoutingIntegration \<Rightarrow> string \<Rightarrow> string \<Rightarrow> bool \<times> error option" where
  "IsModelDisabled ri vendor model =
     (case ri of
        None \<Rightarrow> (False, None)
      | Some tracker_IsDisabled \<Rightarrow> tracker_IsDisabled vendor model)"

definition IsEnabled ::
  "RoutingIntegration \<Rightarrow> string \<Rightarrow> string \<Rightarrow> bool option \<Rightarrow> bool \<times> error option" where
  "IsEnabled ri vendor model explicitlyEnabled =
     (if explicitlyEnabled \<noteq> None \<and> \<not> the explicitlyEnabled then (False, None)
      else (case IsModelDisabled ri vendor model of
              (disabled, Some err) \<Rightarrow> (False, Some err)
            | (disabled, None) \<Rightarrow> (\<not> disabled, None)))"

section \<open>Vendor names\<close>

definition ProviderAliases :: "(string \<times> string) list" where
  "ProviderAliases =
     [(''openai-compat'', ''openai-compatibility''),
      (''vertex'', ''vertex''),
      (''gemini'', ''gemini''),
      (''gemini-cli'', ''gemini-cli''),
      (''claude'', ''claude''),
      (''codex'', ''codex''),
      (''qwen'', ''qwen''),
      (''aistudio'', ''aistudio''),
      (''antigravity'', ''antigravity''),
      (''iflow'', ''iflow'')]"

definition GetVendorName :: "string \<Rightarrow> string" where
  "GetVendorName provider =
     (case map_of ProviderAliases provider of
        Some alias \<Rightarrow> alias
      | None \<Rightarrow> provider)"

section \<open>Runs of the tracker\<close>

datatype Op =
    OpTrackFailure string string Time
  | OpTrackSuccess string string
  | OpEnableModel string string
  | OpSweep Time

fun step :: "failureTracker \<Rightarrow> Op \<Rightarrow> failureTracker" where
  "step t (OpTrackFailure vendor model now) = fst (TrackFailure t vendor model now)"
| "step t (OpTrackSuccess vendor model) = fst (TrackSuccess t vendor model)"
| "step t (OpEnableModel vendor model) = fst (EnableModel t vendor model)"
| "step t (OpSweep now) = checkAndReenable t now"

definition run :: "failureTracker \<Rightarrow> Op list \<Rightarrow> failureTracker" where
  "run t ops = foldl step t ops"

text \<open>
  What a run does to one pair: \<open>noIntervening v m\<close> holds of the operations that are
  neither a \<open>TrackSuccess\<close> nor an \<open>EnableModel\<close> on the pair's key, nor a failure of
  another pair with the same key; \<open>failureTimes v m\<close> lists the clock readings of the
  pair's failures.
\<close>

fun noIntervening :: "string \<Rightarrow> string \<Rightarrow> Op \<Rightarrow> bool" where
  "noIntervening v m (OpTrackFailure vendor model now) =
     ((vendor = v \<and> model = m) \<or> key vendor model \<noteq> key v m)"
| "noIntervening v m (OpTrackSuccess vendor model) = (key vendor model \<noteq> key v m)"
| "noIntervening v m (OpEnableModel vendor model) = (key vendor model \<noteq> key v m)"
| "noIntervening v m (OpSweep now) = True"

fun failureTimes :: "string \<Rightarrow> string \<Rightarrow> Op list \<Rightarrow> Time list" where
  "failureTimes v m [] = []"
| "failureTimes v m (OpTrackFailure vendor model now # ops) =
     (if vendor = v \<and> model = m then now # failureTimes v m ops else failureTimes v m ops)"
| "failureTimes v m (OpTrackSuccess vendor model # ops) = failureTimes v m ops"
| "failureTimes v m (OpEnableModel vendor model # ops) = failureTimes v m ops"
| "failureTimes v m (OpSweep now # ops) = failureTimes v m ops"

section \<open>Clock readings of a run and invariants of the store\<close>

text \<open>Every clock reading an operation takes is a reading of the system clock.\<close>

fun clockOK :: "Op \<Rightarrow> bool" where
  "clockOK (OpTrackFailure vendor model now) = clockReading now"
| "clockOK (OpSweep now) = clockReading now"
| "clockOK (OpTrackSuccess vendor model) = True"
| "clockOK (OpEnableModel vendor model) = True"

text \<open>No operation of the run read the clock later than \<open>now\<close>.\<close>

fun notAfter :: "Time \<Rightarrow> Op \<Rightarrow> bool" where
  "notAfter now (OpTrackFailure vendor model at) = (at \<le> now)"
| "notAfter now (OpSweep at) = (at \<le> now)"
| "notAfter now (OpTrackSuccess vendor model) = True"
| "notAfter now (OpEnableModel vendor model) = True"

text \<open>All clock readings of one call of \<open>GetDisabledModels\<close> are the same instant.\<close>

definition atInstant :: "Time \<Rightarrow> string \<Rightarrow> Time" where
  "atInstant now k = now"

text \<open>
  Three invariants of the records of a tracker: the disable stamps are zero together;
  a record is stored under the key of its own vendor and model; and \<open>disabledUntil\<close> is
  at most one \<open>Duration\<close> after \<open>now\<close>.
\<close>

definition stampsInv :: "failureTracker \<Rightarrow> bool" where
  "stampsInv t = (\<forall>k r. map_of (records t) k = Some r \<longrightarrow>
     IsZero (DisabledAt r) = IsZero (DisabledUntil r))"

definition keyInv :: "failureTracker \<Rightarrow> bool" where
  "keyInv t = (\<forall>k r. map_of (records t) k = Some r \<longrightarrow> k = key (Vendor r) (Model r))"

definition untilInv :: "Time \<Rightarrow> failureTracker \<Rightarrow> bool" where
  "untilInv now t = (\<forall>k r. map_of (records t) k = Some r \<longrightarrow>
     DisabledUntil r \<le> now + 9223372036854775807)"

section \<open>Example runs\<close>

text \<open>
  Two runs of a tracker with no global config (so the default \<open>{5, 60, 300}\<close> applies),
  with failures one second apart: five failures, which disable the pair, and three,
  which do not.
\<close>

definition fiveFailures :: failureTracker where
  "fiveFailures =
     run (emptyTracker None)
       [OpTrackFailure ''openai'' ''gpt-4'' 63900000000000000000,
        OpTrackFailure ''openai'' ''gpt-4'' 63900000001000000000,
        OpTrackFailure ''openai'' ''gpt-4'' 63900000002000000000,
        OpTrackFailure ''openai'' ''gpt-4'' 63900000003000000000,
        OpTrackFailure ''openai'' ''gpt-4'' 63900000004000000000]"

definition threeFailures :: failureTracker where
  "threeFailures =
     run (emptyTracker None)
       [OpTrackFailure ''openai'' ''gpt-4'' 63900000000000000000,
        OpTrackFailure ''openai'' ''gpt-4'' 63900000001000000000,
        OpTrackFailure ''openai'' ''gpt-4'' 63900000002000000000]"

text \<open>
  The five failures again, with operations on other pairs and a sweep in between.
\<close>

definition busyOps :: "Op list" where
  "busyOps =
     [OpTrackFailure ''openai'' ''gpt-4'' 63900000000000000000,
      OpTrackFailure ''claude'' ''claude-3-opus'' 63900000000500000000,
      OpTrackFailure ''openai'' ''gpt-4'' 63900000001000000000,
      OpSweep 63900000001500000000,
      OpTrackFailure ''openai'' ''gpt-4'' 63900000002000000000,
      OpTrackSuccess ''claude'' ''claude-3-opus'',
      OpTrackFailure ''openai'' ''gpt-4'' 63900000003000000000,
      OpEnableModel ''gemini'' ''gemini-pro'',
      OpTrackFailure ''openai'' ''gpt-4'' 63900000004000000000]"

text \<open>
  Three trackers whose global config is outside the range of the counters: a threshold
  above the largest \<open>int32\<close>, and a window and a disable duration whose nanoseconds
  do not fit an \<open>int64\<close>.
\<close>

definition hugeThreshold :: failureTracker where
  "hugeThreshold =
     emptyTracker (Some \<lparr>FailureThreshold = 2147483648, TimeWindowSeconds = 60,
                          DisableDurationSeconds = 300\<rparr>)"

definition hugeWindow :: failureTracker where
  "hugeWindow =
     emptyTracker (Some \<lparr>FailureThreshold = 1, TimeWindowSeconds = 9999999999,
                          DisableDurationSeconds = 300\<rparr>)"

definition hugeDuration :: failureTracker where
  "hugeDuration =
     emptyTracker (Some \<lparr>FailureThreshold = 1, TimeWindowSeconds = 60,
                          DisableDurationSeconds = 9999999999\<rparr>)"

text \<open>Five failures, one second apart, of a model whose name contains a colon.\<close>

definition taggedModel :: failureTracker where
  "taggedModel =
     run (emptyTracker None)
       [OpTrackFailure ''ollama'' ''llama3:8b'' 63900000000000000000,
        OpTrackFailure ''ollama'' ''llama3:8b'' 63900000001000000000,
        OpTrackFailure ''ollama'' ''llama3:8b'' 63900000002000000000,
        OpTrackFailure ''ollama'' ''llama3:8b'' 63900000003000000000,
        OpTrackFailure ''ollama'' ''llama3:8b'' 63900000004000000000]"

section \<open>Machine arithmetic\<close>

lemma sint_of_nat_32: "n < 2 ^ 31 \<Longrightarrow> sint (of_nat n :: 32 word) = int n"
  by (simp add: signed_of_nat signed_take_bit_int_eq_self)

lemma sint_le_32: "sint (x :: 32 word) \<le> 2147483647"
  using sint_lt [of x] by simp

lemma sint_of_nat_32_le: "sint (of_nat n :: 32 word) \<le> int n"
proof (cases "n < 2 ^ 31")
  case True
  then show ?thesis by (simp add: sint_of_nat_32)
next
  case False
  then have "2147483648 \<le> int n" by simp
  with sint_le_32 [of "of_nat n"] show ?thesis by linarith
qed

lemma sint_seconds:
  assumes "- 9223372036 \<le> sint (s :: 64 word)" "sint s \<le> 9223372036"
  shows "sint (s * Second) = sint s * 1000000000"
proof -
  have "sint Second = 1000000000" by (simp add: Second_def)
  then have "sint (s * Second) = signed_take_bit 63 (sint s * 1000000000)"
    by (simp add: sint_word_mult)
  also have "\<dots> = sint s * 1000000000"
    using assms by (intro signed_take_bit_int_eq_self) simp_all
  finally show ?thesis .
qed

lemma sint_neg_seconds:
  assumes "- 9223372036 \<le> sint (s :: 64 word)" "sint s \<le> 9223372036"
  shows "sint (- s * Second) = - (sint s * 1000000000)"
proof -
  have "- s * Second = - (s * Second)" by simp
  then have "sint (- s * Second) = signed_take_bit 63 (- sint (s * Second))"
    by (simp add: sint_word_minus)
  also have "\<dots> = signed_take_bit 63 (- (sint s * 1000000000))"
    using assms by (simp add: sint_seconds)
  also have "\<dots> = - (sint s * 1000000000)"
    using assms by (intro signed_take_bit_int_eq_self) simp_all
  finally show ?thesis .
qed

section \<open>What each operation does to the record under a key\<close>

lemma globalConfig_TrackFailure: "globalConfig (fst (TrackFailure t v m now)) = globalConfig t"
  by (simp add: TrackFailure_def loadOrStore_def Let_def split: option.splits prod.splits)

lemma TrackFailure_fresh:
  assumes "map_of (records t) (key v m) = None"
  shows "map_of (records (fst (TrackFailure t v m now))) (key v m) =
    Some (let cfg = GetEffectiveConfig t v m;
              r = \<lparr>Vendor = v, Model = m, FailureCount = 1, FirstFailure = now,
                    LastFailure = now, DisabledAt = zeroTime, DisabledUntil = zeroTime,
                    EffectiveConfig = cfg\<rparr>
          in if After now (Add now (- TimeWindowSeconds cfg * Second))
                \<and> sint (FailureThreshold cfg) \<le> 1
             then r\<lparr>DisabledAt := now,
                     DisabledUntil := Add now (DisableDurationSeconds cfg * Second)\<rparr>
             else r)"
  using assms
  by (simp add: TrackFailure_def loadOrStore_def Let_def update_conv'
      split: option.splits prod.splits)

lemma TrackFailure_existing:
  assumes "map_of (records t) (key v m) = Some r"
  shows "map_of (records (fst (TrackFailure t v m now))) (key v m) =
    Some (let cfg = GetEffectiveConfig t v m;
              r2 = r\<lparr>FailureCount := FailureCount r + 1, LastFailure := now\<rparr>
          in if After (FirstFailure r) (Add now (- TimeWindowSeconds cfg * Second))
                \<and> sint (FailureThreshold cfg) \<le> sint (FailureCount r + 1)
             then r2\<lparr>DisabledAt := now,
                      DisabledUntil := Add now (DisableDurationSeconds cfg * Second)\<rparr>
             else r2)"
  using assms
  by (simp add: TrackFailure_def loadOrStore_def Let_def update_conv'
      split: option.splits prod.splits)

lemma TrackFailure_other:
  assumes "k \<noteq> key v m"
  shows "map_of (records (fst (TrackFailure t v m now))) k = map_of (records t) k"
  using assms
  by (simp add: TrackFailure_def loadOrStore_def Let_def update_conv'
      split: option.splits prod.splits)

lemma TrackSuccess_lookup:
  "map_of (records (fst (TrackSuccess t v m))) k =
     (if k = key v m
      then map_option (\<lambda>r. if IsZero (DisabledUntil r)
                            then r\<lparr>FailureCount := 0, FirstFailure := zeroTime\<rparr> else r)
             (map_of (records t) k)
      else map_of (records t) k)"
  by (simp add: TrackSuccess_def Let_def update_conv' split: option.splits)

lemma EnableModel_lookup:
  "map_of (records (fst (EnableModel t v m))) k =
     (if k = key v m
      then map_option (\<lambda>r. r\<lparr>FailureCount := 0, FirstFailure := zeroTime,
                             LastFailure := zeroTime, DisabledAt := zeroTime,
                             DisabledUntil := zeroTime\<rparr>)
             (map_of (records t) k)
      else map_of (records t) k)"
  by (simp add: EnableModel_def Let_def update_conv' split: option.splits)

lemma checkAndReenable_records:
  "records (checkAndReenable t now) =
     map (\<lambda>(k, r). (k, if \<not> IsZero (DisabledAt r) \<and> After now (DisabledUntil r)
                        then r\<lparr>FailureCount := 0, FirstFailure := zeroTime,
                               LastFailure := zeroTime, DisabledAt := zeroTime,
                               DisabledUntil := zeroTime\<rparr>
                        else r))
       (records t)"
  by (simp add: checkAndReenable_def case_prod_unfold if_distrib [of "Pair _"] cong: if_cong)

lemma checkAndReenable_lookup:
  "map_of (records (checkAndReenable t now)) k =
     map_option (\<lambda>r. if \<not> IsZero (DisabledAt r) \<and> After now (DisabledUntil r)
                      then r\<lparr>FailureCount := 0, FirstFailure := zeroTime,
                             LastFailure := zeroTime, DisabledAt := zeroTime,
                             DisabledUntil := zeroTime\<rparr>
                      else r)
       (map_of (records t) k)"
  by (simp add: checkAndReenable_records map_of_map)

subsection \<open>Keys stay distinct\<close>

lemma keys_TrackFailure:
  "distinct (map fst (records t)) \<Longrightarrow>
     distinct (map fst (records (fst (TrackFailure t v m now))))"
  by (simp add: TrackFailure_def loadOrStore_def Let_def distinct_update
      split: option.splits prod.splits)

lemma keys_TrackSuccess:
  "distinct (map fst (records t)) \<Longrightarrow> distinct (map fst (records (fst (TrackSuccess t v m))))"
  by (simp add: TrackSuccess_def Let_def distinct_update split: option.splits)

lemma keys_EnableModel:
  "distinct (map fst (records t)) \<Longrightarrow> distinct (map fst (records (fst (EnableModel t v m))))"
  by (simp add: EnableModel_def Let_def distinct_update split: option.splits)

lemma keys_checkAndReenable:
  "map fst (records (checkAndReenable t now)) = map fst (records t)"
  by (simp add: checkAndReenable_records case_prod_unfold comp_def)

lemma keys_step:
  "distinct (map fst (records t)) \<Longrightarrow> distinct (map fst (records (step t op)))"
  by (cases op)
    (simp_all add: keys_TrackFailure keys_TrackSuccess keys_EnableModel keys_checkAndReenable)

lemma run_snoc: "run t (ops @ [op]) = step (run t ops) op"
  by (simp add: run_def)

lemma run_Nil: "run t [] = t"
  by (simp add: run_def)

lemma keys_run: "distinct (map fst (records (run (emptyTracker g) ops)))"
proof (induction ops rule: rev_induct)
  case Nil
  show ?case by (simp add: run_Nil emptyTracker_def)
next
  case (snoc op ops)
  then show ?case by (simp add: run_snoc keys_step)
qed

section \<open>The example runs, evaluated\<close>

lemma fiveFailures_eq:
  "fiveFailures =
     \<lparr>records = [(''openai:gpt-4'',
        \<lparr>Vendor = ''openai'', Model = ''gpt-4'', FailureCount = 5,
         FirstFailure = 63900000000000000000, LastFailure = 63900000004000000000,
         DisabledAt = 63900000004000000000, DisabledUntil = 63900000304000000000,
         EffectiveConfig = defaultConfig\<rparr>)],
      globalConfig = None\<rparr>"
  by (simp add: fiveFailures_def run_def emptyTracker_def TrackFailure_def loadOrStore_def
      GetEffectiveConfig_def key_def Let_def zeroTime_def After_def Add_def Second_def
      defaultConfig_def)

lemma threeFailures_eq:
  "threeFailures =
     \<lparr>records = [(''openai:gpt-4'',
        \<lparr>Vendor = ''openai'', Model = ''gpt-4'', FailureCount = 3,
         FirstFailure = 63900000000000000000, LastFailure = 63900000002000000000,
         DisabledAt = 0, DisabledUntil = 0,
         EffectiveConfig = defaultConfig\<rparr>)],
      globalConfig = None\<rparr>"
  by (simp add: threeFailures_def run_def emptyTracker_def TrackFailure_def loadOrStore_def
      GetEffectiveConfig_def key_def Let_def zeroTime_def After_def Add_def Second_def
      defaultConfig_def)

lemma busyOps_run:
  "run (emptyTracker None) busyOps =
     \<lparr>records =
        [(''openai:gpt-4'',
          \<lparr>Vendor = ''openai'', Model = ''gpt-4'', FailureCount = 5,
           FirstFailure = 63900000000000000000, LastFailure = 63900000004000000000,
           DisabledAt = 63900000004000000000, DisabledUntil = 63900000304000000000,
           EffectiveConfig = defaultConfig\<rparr>),
         (''claude:claude-3-opus'',
          \<lparr>Vendor = ''claude'', Model = ''claude-3-opus'', FailureCount = 0,
           FirstFailure = 0, LastFailure = 63900000000500000000,
           DisabledAt = 0, DisabledUntil = 0,
           EffectiveConfig = defaultConfig\<rparr>)],
      globalConfig = None\<rparr>"
  by (simp add: busyOps_def run_def emptyTracker_def TrackFailure_def TrackSuccess_def
      EnableModel_def checkAndReenable_def loadOrStore_def
      GetEffectiveConfig_def key_def Let_def zeroTime_def After_def Add_def Second_def
      IsZero_def defaultConfig_def)


section \<open>The resolver, the routing adapter and vendor names\<close>

text \<open>
  Claim C5. The resolver returns the effective config of the most specific level that is
  present (model, else vendor, else global, else the hard default \<open>{5, 60, 300}\<close>) and
  looks at no broader level; within the chosen level a zero field is replaced by the
  hard default's field and a non-zero field is kept; no field of the result is zero. The
  resolver is a function of its three arguments, so resolving the same inputs again
  gives the same config.
\<close>

theorem C5_resolver_precedence:
  "GetEffectiveAutoDisableConfig g v (Some mc) = AutoDisableConfig_GetEffectiveConfig (Some mc)
   \<and> GetEffectiveAutoDisableConfig g (Some vc) None = AutoDisableConfig_GetEffectiveConfig (Some vc)
   \<and> GetEffectiveAutoDisableConfig (Some gc) None None
        = AutoDisableConfig_GetEffectiveConfig (Some gc)
   \<and> GetEffectiveAutoDisableConfig None None None = defaultConfig
   \<and> FailureThreshold (AutoDisableConfig_GetEffectiveConfig (Some c))
        = (if FailureThreshold c = 0 then FailureThreshold defaultConfig else FailureThreshold c)
   \<and> TimeWindowSeconds (AutoDisableConfig_GetEffectiveConfig (Some c))
        = (if TimeWindowSeconds c = 0 then TimeWindowSeconds defaultConfig
           else TimeWindowSeconds c)
   \<and> DisableDurationSeconds (AutoDisableConfig_GetEffectiveConfig (Some c))
        = (if DisableDurationSeconds c = 0 then DisableDurationSeconds defaultConfig
           else DisableDurationSeconds c)
   \<and> FailureThreshold (GetEffectiveAutoDisableConfig g v m) \<noteq> 0
   \<and> TimeWindowSeconds (GetEffectiveAutoDisableConfig g v m) \<noteq> 0
   \<and> DisableDurationSeconds (GetEffectiveAutoDisableConfig g v m) \<noteq> 0"
  by (simp add: GetEffectiveAutoDisableConfig_def AutoDisableConfig_GetEffectiveConfig_def
      defaultConfig_def split: option.splits)

text \<open>
  Claim C6. With the explicit flag present and false, \<open>IsEnabled\<close> answers false whatever
  the tracker is (any tracker, or none), so the tracker is not consulted; with the flag
  absent or true it answers the negation of the tracker's \<open>IsDisabled\<close>.
\<close>

theorem C6_IsEnabled:
  "IsEnabled ri vendor model (Some False) = (False, None)
   \<and> (flag \<noteq> Some False \<longrightarrow>
        IsEnabled (Some (\<lambda>v m. IsDisabled t v m now)) vendor model flag
          = (\<not> fst (IsDisabled t vendor model now), None))
   \<and> (flag \<noteq> Some False \<and> snd (tracker_IsDisabled vendor model) = None \<longrightarrow>
        IsEnabled (Some tracker_IsDisabled) vendor model flag
          = (\<not> fst (tracker_IsDisabled vendor model), None))"
proof -
  have "IsEnabled (Some f) vendor model flag = (\<not> fst (f vendor model), None)"
    if "flag \<noteq> Some False" "snd (f vendor model) = None" for f
    using that
    by (cases flag; cases "f vendor model")
      (auto simp: IsEnabled_def IsModelDisabled_def)
  moreover have "snd (IsDisabled t vendor model now) = None"
    by (simp add: IsDisabled_def Let_def split: option.splits)
  ultimately show ?thesis
    by (simp add: IsEnabled_def)
qed

theorem C6_IsEnabled_witness:
  "IsEnabled (Some (\<lambda>v m. IsDisabled (emptyTracker None) v m 63900000000000000000))
      ''openai'' ''gpt-4'' (Some False) = (False, None)
   \<and> IsEnabled (Some (\<lambda>v m. IsDisabled (emptyTracker None) v m 63900000000000000000))
      ''openai'' ''gpt-4'' None = (True, None)
   \<and> IsEnabled (Some (\<lambda>v m. IsDisabled fiveFailures v m 63900000004000000000))
      ''openai'' ''gpt-4'' (Some True) = (False, None)"
  using C6_IsEnabled [of "Some (\<lambda>v m. IsDisabled (emptyTracker None) v m 63900000000000000000)"
      "''openai''" "''gpt-4''" None "emptyTracker None" 63900000000000000000]
    C6_IsEnabled [of _ "''openai''" "''gpt-4''" "Some True" fiveFailures 63900000004000000000]
  by (simp add: IsDisabled_def emptyTracker_def fiveFailures_eq key_def IsZero_def Before_def)

text \<open>
  Claim C10. Normalising a vendor name twice gives the same name as normalising it once,
  and a provider that is not a key of the alias table is returned as it is.
\<close>

theorem C10_GetVendorName_idempotent:
  "GetVendorName (GetVendorName provider) = GetVendorName provider
   \<and> (map_of ProviderAliases provider = None \<longrightarrow> GetVendorName provider = provider)"
proof (cases "map_of ProviderAliases provider")
  case None
  then show ?thesis by (simp add: GetVendorName_def)
next
  case (Some a)
  then have "a \<in> snd ` set ProviderAliases"
    by (metis map_of_SomeD image_eqI snd_conv)
  then have "GetVendorName a = a"
    by (auto simp: ProviderAliases_def GetVendorName_def)
  with Some show ?thesis by (simp add: GetVendorName_def)
qed

theorem C10_GetVendorName_witness:
  "GetVendorName (GetVendorName ''openai-compat'') = ''openai-compatibility''
   \<and> map_of ProviderAliases ''my-provider'' = None
   \<and> GetVendorName ''my-provider'' = ''my-provider''"
  using C10_GetVendorName_idempotent [of "''openai-compat''"]
    C10_GetVendorName_idempotent [of "''my-provider''"]
  by (simp add: GetVendorName_def ProviderAliases_def)

section \<open>Single operations\<close>

text \<open>
  Claim C9. \<open>EnableModel\<close> on a disabled pair leaves \<open>IsDisabled\<close> false (at any later
  reading of the clock) and \<open>GetFailureCount\<close> 0; calling it a second time changes
  nothing; on a pair with no record it returns the tracker unchanged; it never returns
  an error.
\<close>

theorem C9_EnableModel:
  "(fst (IsDisabled t v m now) \<longrightarrow>
      \<not> fst (IsDisabled (fst (EnableModel t v m)) v m now')
      \<and> GetFailureCount (fst (EnableModel t v m)) v m = (0, None))
   \<and> fst (EnableModel (fst (EnableModel t v m)) v m) = fst (EnableModel t v m)
   \<and> (map_of (records t) (key v m) = None \<longrightarrow> EnableModel t v m = (t, None))
   \<and> snd (EnableModel t v m) = None"
proof (cases "map_of (records t) (key v m)")
  case None
  then show ?thesis by (simp add: EnableModel_def IsDisabled_def)
next
  case (Some r)
  have look: "map_of (records (fst (EnableModel t v m))) (key v m) =
      Some (r\<lparr>FailureCount := 0, FirstFailure := zeroTime, LastFailure := zeroTime,
              DisabledAt := zeroTime, DisabledUntil := zeroTime\<rparr>)"
    using Some by (simp add: EnableModel_lookup)
  have "\<not> fst (IsDisabled (fst (EnableModel t v m)) v m now')"
    by (simp add: IsDisabled_def look IsZero_def zeroTime_def)
  moreover have "GetFailureCount (fst (EnableModel t v m)) v m = (0, None)"
    by (simp add: GetFailureCount_def look)
  moreover have "fst (EnableModel (fst (EnableModel t v m)) v m) = fst (EnableModel t v m)"
    using Some by (simp add: EnableModel_def update_conv')
  moreover have "snd (EnableModel t v m) = None"
    using Some by (simp add: EnableModel_def)
  ultimately show ?thesis using Some by simp
qed

theorem C9_EnableModel_witness:
  "fst (IsDisabled fiveFailures ''openai'' ''gpt-4'' 63900000004000000000)
   \<and> \<not> fst (IsDisabled (fst (EnableModel fiveFailures ''openai'' ''gpt-4'')) ''openai'' ''gpt-4''
          63900000004000000000)
   \<and> GetFailureCount (fst (EnableModel fiveFailures ''openai'' ''gpt-4'')) ''openai'' ''gpt-4''
       = (0, None)
   \<and> map_of (records fiveFailures) (key ''claude'' ''claude-3-opus'') = None
   \<and> EnableModel fiveFailures ''claude'' ''claude-3-opus'' = (fiveFailures, None)"
  using C9_EnableModel [of fiveFailures "''openai''" "''gpt-4''" 63900000004000000000
      63900000004000000000]
    C9_EnableModel [of fiveFailures "''claude''" "''claude-3-opus''"]
  by (simp add: fiveFailures_eq IsDisabled_def key_def IsZero_def Before_def)

text \<open>
  Claim C3, as amended. \<open>TrackSuccess\<close> does not look at the clock: it resets
  \<open>failureCount\<close> and \<open>firstFailure\<close> exactly when the record's \<open>disabledUntil\<close> is
  zero, and changes nothing when \<open>disabledUntil\<close> is set, whether the window is still
  running or has already expired and not yet been swept. In particular it changes
  nothing while the pair is disabled. On a pair with no record it changes nothing, and
  it never returns an error.
\<close>

theorem C3_TrackSuccess:
  "(map_of (records t) (key v m) = None \<longrightarrow> TrackSuccess t v m = (t, None))
   \<and> snd (TrackSuccess t v m) = None
   \<and> (map_of (records t) (key v m) = Some r \<and> IsZero (DisabledUntil r) \<longrightarrow>
        map_of (records (fst (TrackSuccess t v m))) (key v m)
          = Some (r\<lparr>FailureCount := 0, FirstFailure := zeroTime\<rparr>))
   \<and> (map_of (records t) (key v m) = Some r \<and> \<not> IsZero (DisabledUntil r) \<longrightarrow>
        fst (TrackSuccess t v m) = t)
   \<and> (fst (IsDisabled t v m now) \<and> 0 \<le> now \<longrightarrow> fst (TrackSuccess t v m) = t)"
proof -
  have a: "map_of (records t) (key v m) = None \<longrightarrow> TrackSuccess t v m = (t, None)"
    by (simp add: TrackSuccess_def)
  have b: "snd (TrackSuccess t v m) = None"
    by (simp add: TrackSuccess_def Let_def split: option.splits)
  have c: "map_of (records t) (key v m) = Some r \<and> IsZero (DisabledUntil r) \<longrightarrow>
        map_of (records (fst (TrackSuccess t v m))) (key v m)
          = Some (r\<lparr>FailureCount := 0, FirstFailure := zeroTime\<rparr>)"
    by (simp add: TrackSuccess_lookup)
  have d: "fst (TrackSuccess t v m) = t"
    if "map_of (records t) (key v m) = Some r'" "\<not> IsZero (DisabledUntil r')" for r'
    using that by (simp add: TrackSuccess_def update_triv)
  have e: "fst (IsDisabled t v m now) \<and> 0 \<le> now \<longrightarrow> fst (TrackSuccess t v m) = t"
  proof (cases "map_of (records t) (key v m)")
    case None
    then show ?thesis by (simp add: IsDisabled_def)
  next
    case (Some r')
    show ?thesis
    proof (intro impI)
      assume h: "fst (IsDisabled t v m now) \<and> 0 \<le> now"
      then have "now < DisabledUntil r'"
        using Some by (simp add: IsDisabled_def Before_def split: if_splits)
      with h have "\<not> IsZero (DisabledUntil r')" by (simp add: IsZero_def)
      with Some show "fst (TrackSuccess t v m) = t" by (rule d)
    qed
  qed
  from a b c d e show ?thesis by blast
qed

theorem C3_TrackSuccess_witness:
  "map_of (records fiveFailures) (key ''claude'' ''claude-3-opus'') = None
   \<and> TrackSuccess fiveFailures ''claude'' ''claude-3-opus'' = (fiveFailures, None)
   \<and> map_of (records threeFailures) (key ''openai'' ''gpt-4'')
       = Some \<lparr>Vendor = ''openai'', Model = ''gpt-4'', FailureCount = 3,
           FirstFailure = 63900000000000000000, LastFailure = 63900000002000000000,
           DisabledAt = 0, DisabledUntil = 0, EffectiveConfig = defaultConfig\<rparr>
   \<and> map_of (records (fst (TrackSuccess threeFailures ''openai'' ''gpt-4''))) (key ''openai'' ''gpt-4'')
       = Some \<lparr>Vendor = ''openai'', Model = ''gpt-4'', FailureCount = 0,
           FirstFailure = 0, LastFailure = 63900000002000000000,
           DisabledAt = 0, DisabledUntil = 0, EffectiveConfig = defaultConfig\<rparr>
   \<and> fst (IsDisabled fiveFailures ''openai'' ''gpt-4'' 63900000005000000000)
   \<and> fst (TrackSuccess fiveFailures ''openai'' ''gpt-4'') = fiveFailures"
  using C3_TrackSuccess [of fiveFailures "''claude''" "''claude-3-opus''"]
    C3_TrackSuccess [of threeFailures "''openai''" "''gpt-4''"
      "\<lparr>Vendor = ''openai'', Model = ''gpt-4'', FailureCount = 3,
         FirstFailure = 63900000000000000000, LastFailure = 63900000002000000000,
         DisabledAt = 0, DisabledUntil = 0, EffectiveConfig = defaultConfig\<rparr>"]
    C3_TrackSuccess [of fiveFailures "''openai''" "''gpt-4''" _ 63900000005000000000]
  by (simp add: fiveFailures_eq threeFailures_eq key_def IsZero_def zeroTime_def
      IsDisabled_def Before_def)

text \<open>
  The claim as stated fails in the expired state: five failures disable the pair until
  63900000304000000000; one second after that the pair is no longer disabled, and yet
  a success leaves the failure count at 5 and \<open>firstFailure\<close> set.
\<close>

theorem C3_TrackSuccess_counterexample:
  "\<not> fst (IsDisabled fiveFailures ''openai'' ''gpt-4'' 63900000305000000000)
   \<and> \<not> Before 63900000305000000000 63900000304000000000
   \<and> map_option DisabledUntil (map_of (records fiveFailures) (key ''openai'' ''gpt-4''))
       = Some 63900000304000000000
   \<and> GetFailureCount fiveFailures ''openai'' ''gpt-4'' = (5, None)
   \<and> GetFailureCount (fst (TrackSuccess fiveFailures ''openai'' ''gpt-4'')) ''openai'' ''gpt-4''
       = (5, None)
   \<and> map_option FirstFailure
        (map_of (records (fst (TrackSuccess fiveFailures ''openai'' ''gpt-4'')))
           (key ''openai'' ''gpt-4''))
       = Some 63900000000000000000"
  by (simp add: fiveFailures_eq key_def IsZero_def zeroTime_def IsDisabled_def Before_def
      GetFailureCount_def TrackSuccess_def)

text \<open>
  Claim C4, as amended. For a record with \<open>disabledAt\<close> set and \<open>disabledUntil\<close>
  strictly before the sweep's clock reading, one pass of the sweep clears
  \<open>failureCount\<close>, \<open>firstFailure\<close>, \<open>lastFailure\<close>, \<open>disabledAt\<close> and
  \<open>disabledUntil\<close>, which is the record that \<open>EnableModel\<close> leaves; a record whose
  \<open>disabledUntil\<close> is not before the reading (the window has not expired, or expires at
  this very instant), or whose \<open>disabledAt\<close> is zero, is unchanged.
\<close>

theorem C4_checkAndReenable:
  "(map_of (records t) (key v m) = Some r \<and> \<not> IsZero (DisabledAt r) \<and> DisabledUntil r < now \<longrightarrow>
      map_of (records (checkAndReenable t now)) (key v m)
        = Some (r\<lparr>FailureCount := 0, FirstFailure := zeroTime, LastFailure := zeroTime,
                  DisabledAt := zeroTime, DisabledUntil := zeroTime\<rparr>)
      \<and> map_of (records (checkAndReenable t now)) (key v m)
        = map_of (records (fst (EnableModel t v m))) (key v m))
   \<and> (map_of (records t) (key v m) = Some r \<and> (now \<le> DisabledUntil r \<or> IsZero (DisabledAt r)) \<longrightarrow>
        map_of (records (checkAndReenable t now)) (key v m) = Some r)"
proof (intro conjI impI)
  assume h: "map_of (records t) (key v m) = Some r \<and> \<not> IsZero (DisabledAt r)
      \<and> DisabledUntil r < now"
  then have expired: "After now (DisabledUntil r)"
    by (simp add: After_def)
  with h show swept: "map_of (records (checkAndReenable t now)) (key v m)
        = Some (r\<lparr>FailureCount := 0, FirstFailure := zeroTime, LastFailure := zeroTime,
                  DisabledAt := zeroTime, DisabledUntil := zeroTime\<rparr>)"
    by (simp add: checkAndReenable_lookup)
  from h have "map_of (records (fst (EnableModel t v m))) (key v m)
        = Some (r\<lparr>FailureCount := 0, FirstFailure := zeroTime, LastFailure := zeroTime,
                  DisabledAt := zeroTime, DisabledUntil := zeroTime\<rparr>)"
    by (simp add: EnableModel_lookup)
  with swept show "map_of (records (checkAndReenable t now)) (key v m)
        = map_of (records (fst (EnableModel t v m))) (key v m)"
    by simp
next
  assume h: "map_of (records t) (key v m) = Some r
      \<and> (now \<le> DisabledUntil r \<or> IsZero (DisabledAt r))"
  then have "\<not> (\<not> IsZero (DisabledAt r) \<and> After now (DisabledUntil r))"
    by (auto simp: After_def)
  with h show "map_of (records (checkAndReenable t now)) (key v m) = Some r"
    by (auto simp: checkAndReenable_lookup)
qed

theorem C4_checkAndReenable_witness:
  "map_of (records fiveFailures) (key ''openai'' ''gpt-4'')
       = Some \<lparr>Vendor = ''openai'', Model = ''gpt-4'', FailureCount = 5,
           FirstFailure = 63900000000000000000, LastFailure = 63900000004000000000,
           DisabledAt = 63900000004000000000, DisabledUntil = 63900000304000000000,
           EffectiveConfig = defaultConfig\<rparr>
   \<and> map_of (records (checkAndReenable fiveFailures 63900000304000000001))
        (key ''openai'' ''gpt-4'')
       = Some \<lparr>Vendor = ''openai'', Model = ''gpt-4'', FailureCount = 0,
           FirstFailure = 0, LastFailure = 0, DisabledAt = 0, DisabledUntil = 0,
           EffectiveConfig = defaultConfig\<rparr>
   \<and> map_of (records (checkAndReenable fiveFailures 63900000304000000001))
        (key ''openai'' ''gpt-4'')
       = map_of (records (fst (EnableModel fiveFailures ''openai'' ''gpt-4'')))
           (key ''openai'' ''gpt-4'')
   \<and> map_of (records (checkAndReenable fiveFailures 63900000010000000000))
        (key ''openai'' ''gpt-4'')
       = map_of (records fiveFailures) (key ''openai'' ''gpt-4'')"
  using C4_checkAndReenable [of fiveFailures "''openai''" "''gpt-4''"
      "\<lparr>Vendor = ''openai'', Model = ''gpt-4'', FailureCount = 5,
         FirstFailure = 63900000000000000000, LastFailure = 63900000004000000000,
         DisabledAt = 63900000004000000000, DisabledUntil = 63900000304000000000,
         EffectiveConfig = defaultConfig\<rparr>" 63900000304000000001]
    C4_checkAndReenable [of fiveFailures "''openai''" "''gpt-4''"
      "\<lparr>Vendor = ''openai'', Model = ''gpt-4'', FailureCount = 5,
         FirstFailure = 63900000000000000000, LastFailure = 63900000004000000000,
         DisabledAt = 63900000004000000000, DisabledUntil = 63900000304000000000,
         EffectiveConfig = defaultConfig\<rparr>" 63900000010000000000]
  by (simp add: fiveFailures_eq key_def IsZero_def zeroTime_def checkAndReenable_def After_def
      EnableModel_def)

text \<open>
  The claim as stated fails when the sweep runs at the instant \<open>disabledUntil\<close> itself:
  the record is left as it is, with its count of 5, where \<open>EnableModel\<close> would clear it.
\<close>

theorem C4_checkAndReenable_counterexample:
  "map_option DisabledAt (map_of (records fiveFailures) (key ''openai'' ''gpt-4''))
       = Some 63900000004000000000
   \<and> map_option DisabledUntil (map_of (records fiveFailures) (key ''openai'' ''gpt-4''))
       = Some 63900000304000000000
   \<and> (63900000304000000000 :: Time) \<ge> 63900000304000000000
   \<and> checkAndReenable fiveFailures 63900000304000000000 = fiveFailures
   \<and> GetFailureCount (checkAndReenable fiveFailures 63900000304000000000) ''openai'' ''gpt-4''
       = (5, None)
   \<and> GetFailureCount (fst (EnableModel fiveFailures ''openai'' ''gpt-4'')) ''openai'' ''gpt-4''
       = (0, None)"
  by (simp add: fiveFailures_eq key_def IsZero_def zeroTime_def checkAndReenable_def After_def
      GetFailureCount_def EnableModel_def)

section \<open>Disable stamps\<close>

text \<open>
  Claim C2, as amended. For a pair with a record, \<open>TrackSuccess\<close> (for any pair),
  \<open>TrackFailure\<close> and \<open>EnableModel\<close> for a pair with another key, and a sweep whose
  clock reading is not after \<open>disabledUntil\<close> leave \<open>disabledAt\<close> and \<open>disabledUntil\<close>
  as they are. A further \<open>TrackFailure\<close> for the pair itself evaluates the disable
  condition again: when \<open>firstFailure\<close> is still inside the counting window and the
  incremented count is at least the threshold, it overwrites \<open>disabledAt\<close> with the
  current reading and \<open>disabledUntil\<close> with that reading plus the disable duration,
  also while the pair is disabled; otherwise it leaves both unchanged.
\<close>

theorem C2_disable_stamps:
  "map_of (records t) (key v m) = Some r \<longrightarrow>
     map_option DisabledAt (map_of (records (fst (TrackSuccess t v' m'))) (key v m))
       = Some (DisabledAt r)
     \<and> map_option DisabledUntil (map_of (records (fst (TrackSuccess t v' m'))) (key v m))
       = Some (DisabledUntil r)
     \<and> (key v' m' \<noteq> key v m \<longrightarrow>
          map_of (records (fst (TrackFailure t v' m' now))) (key v m) = Some r
          \<and> map_of (records (fst (EnableModel t v' m'))) (key v m) = Some r)
     \<and> (now \<le> DisabledUntil r \<longrightarrow>
          map_of (records (checkAndReenable t now)) (key v m) = Some r)
     \<and> map_option (\<lambda>r'. (DisabledAt r', DisabledUntil r'))
          (map_of (records (fst (TrackFailure t v m now))) (key v m))
        = Some (if After (FirstFailure r)
                     (Add now (- TimeWindowSeconds (GetEffectiveConfig t v m) * Second))
                   \<and> sint (FailureThreshold (GetEffectiveConfig t v m))
                       \<le> sint (FailureCount r + 1)
                then (now, Add now (DisableDurationSeconds (GetEffectiveConfig t v m) * Second))
                else (DisabledAt r, DisabledUntil r))"
proof (intro impI)
  assume r: "map_of (records t) (key v m) = Some r"
  have success: "map_option DisabledAt (map_of (records (fst (TrackSuccess t v' m'))) (key v m))
        = Some (DisabledAt r)
      \<and> map_option DisabledUntil (map_of (records (fst (TrackSuccess t v' m'))) (key v m))
        = Some (DisabledUntil r)"
    using r by (cases "key v m = key v' m'") (auto simp: TrackSuccess_lookup)
  have other: "key v' m' \<noteq> key v m \<longrightarrow>
      map_of (records (fst (TrackFailure t v' m' now))) (key v m) = Some r
      \<and> map_of (records (fst (EnableModel t v' m'))) (key v m) = Some r"
    using r by (simp add: TrackFailure_other EnableModel_lookup)
  have sweep: "now \<le> DisabledUntil r \<longrightarrow>
      map_of (records (checkAndReenable t now)) (key v m) = Some r"
    using r by (simp add: checkAndReenable_lookup After_def)
  have failure: "map_option (\<lambda>r'. (DisabledAt r', DisabledUntil r'))
        (map_of (records (fst (TrackFailure t v m now))) (key v m))
      = Some (if After (FirstFailure r)
                   (Add now (- TimeWindowSeconds (GetEffectiveConfig t v m) * Second))
                 \<and> sint (FailureThreshold (GetEffectiveConfig t v m))
                     \<le> sint (FailureCount r + 1)
              then (now, Add now (DisableDurationSeconds (GetEffectiveConfig t v m) * Second))
              else (DisabledAt r, DisabledUntil r))"
    by (simp add: TrackFailure_existing [OF r] Let_def)
  from success other sweep failure
  show "map_option DisabledAt (map_of (records (fst (TrackSuccess t v' m'))) (key v m))
       = Some (DisabledAt r)
     \<and> map_option DisabledUntil (map_of (records (fst (TrackSuccess t v' m'))) (key v m))
       = Some (DisabledUntil r)
     \<and> (key v' m' \<noteq> key v m \<longrightarrow>
          map_of (records (fst (TrackFailure t v' m' now))) (key v m) = Some r
          \<and> map_of (records (fst (EnableModel t v' m'))) (key v m) = Some r)
     \<and> (now \<le> DisabledUntil r \<longrightarrow>
          map_of (records (checkAndReenable t now)) (key v m) = Some r)
     \<and> map_option (\<lambda>r'. (DisabledAt r', DisabledUntil r'))
          (map_of (records (fst (TrackFailure t v m now))) (key v m))
        = Some (if After (FirstFailure r)
                     (Add now (- TimeWindowSeconds (GetEffectiveConfig t v m) * Second))
                   \<and> sint (FailureThreshold (GetEffectiveConfig t v m))
                       \<le> sint (FailureCount r + 1)
                then (now, Add now (DisableDurationSeconds (GetEffectiveConfig t v m) * Second))
                else (DisabledAt r, DisabledUntil r))"
    by blast
qed

theorem C2_disable_stamps_witness:
  "map_of (records fiveFailures) (key ''openai'' ''gpt-4'')
     = Some \<lparr>Vendor = ''openai'', Model = ''gpt-4'', FailureCount = 5,
         FirstFailure = 63900000000000000000, LastFailure = 63900000004000000000,
         DisabledAt = 63900000004000000000, DisabledUntil = 63900000304000000000,
         EffectiveConfig = defaultConfig\<rparr>
   \<and> map_option DisabledUntil
        (map_of (records (fst (TrackSuccess fiveFailures ''openai'' ''gpt-4'')))
           (key ''openai'' ''gpt-4''))
       = Some 63900000304000000000
   \<and> map_of (records (fst (TrackFailure fiveFailures ''claude'' ''claude-3-opus''
                            63900000005000000000)))
        (key ''openai'' ''gpt-4'')
       = map_of (records fiveFailures) (key ''openai'' ''gpt-4'')
   \<and> map_of (records (checkAndReenable fiveFailures 63900000005000000000))
        (key ''openai'' ''gpt-4'')
       = map_of (records fiveFailures) (key ''openai'' ''gpt-4'')
   \<and> map_option DisabledUntil
        (map_of (records (fst (TrackFailure fiveFailures ''openai'' ''gpt-4''
                                 63900000100000000000)))
           (key ''openai'' ''gpt-4''))
       = Some 63900000304000000000"
  using C2_disable_stamps [of fiveFailures "''openai''" "''gpt-4''"
      "\<lparr>Vendor = ''openai'', Model = ''gpt-4'', FailureCount = 5,
         FirstFailure = 63900000000000000000, LastFailure = 63900000004000000000,
         DisabledAt = 63900000004000000000, DisabledUntil = 63900000304000000000,
         EffectiveConfig = defaultConfig\<rparr>" "''claude''" "''claude-3-opus''"
      63900000005000000000]
    C2_disable_stamps [of fiveFailures "''openai''" "''gpt-4''"
      "\<lparr>Vendor = ''openai'', Model = ''gpt-4'', FailureCount = 5,
         FirstFailure = 63900000000000000000, LastFailure = 63900000004000000000,
         DisabledAt = 63900000004000000000, DisabledUntil = 63900000304000000000,
         EffectiveConfig = defaultConfig\<rparr>" "''openai''" "''gpt-4''"
      63900000100000000000]
  by (simp add: fiveFailures_eq key_def TrackSuccess_def TrackFailure_def loadOrStore_def
      GetEffectiveConfig_def checkAndReenable_def Let_def IsZero_def zeroTime_def After_def
      Add_def Second_def)

text \<open>
  The claim as stated fails for a failure that arrives while the pair is disabled and
  the counting window is still open: the pair is disabled from 63900000004000000000
  until 63900000304000000000, and a sixth failure one second later, inside that
  window, moves both stamps forward by a second.
\<close>

theorem C2_disable_stamps_counterexample:
  "fst (IsDisabled fiveFailures ''openai'' ''gpt-4'' 63900000005000000000)
   \<and> map_option DisabledAt (map_of (records fiveFailures) (key ''openai'' ''gpt-4''))
       = Some 63900000004000000000
   \<and> map_option DisabledUntil (map_of (records fiveFailures) (key ''openai'' ''gpt-4''))
       = Some 63900000304000000000
   \<and> map_option DisabledAt
        (map_of (records (fst (TrackFailure fiveFailures ''openai'' ''gpt-4''
                                 63900000005000000000)))
           (key ''openai'' ''gpt-4''))
       = Some 63900000005000000000
   \<and> map_option DisabledUntil
        (map_of (records (fst (TrackFailure fiveFailures ''openai'' ''gpt-4''
                                 63900000005000000000)))
           (key ''openai'' ''gpt-4''))
       = Some 63900000305000000000"
  by (simp add: fiveFailures_eq key_def TrackFailure_def loadOrStore_def IsDisabled_def
      GetEffectiveConfig_def Let_def IsZero_def zeroTime_def After_def Before_def
      Add_def Second_def)

lemma clock_nonzero: "clockReading now \<Longrightarrow> \<not> IsZero now"
  by (simp add: clockReading_def IsZero_def)

lemma clock_Add_nonzero: "clockReading now \<Longrightarrow> \<not> IsZero (Add now d)"
  using sint_ge [of d] by (simp add: clockReading_def IsZero_def Add_def)

lemma stampsInv_step:
  assumes "stampsInv t" "clockOK op"
  shows "stampsInv (step t op)"
proof (cases op)
  case (OpTrackFailure v m now)
  with assms have clk: "clockReading now" by simp
  show ?thesis
    unfolding stampsInv_def
  proof (intro allI impI)
    fix k r
    assume h: "map_of (records (step t op)) k = Some r"
    show "IsZero (DisabledAt r) = IsZero (DisabledUntil r)"
    proof (cases "k = key v m")
      case False
      with h OpTrackFailure have "map_of (records t) k = Some r"
        by (simp add: TrackFailure_other)
      with assms show ?thesis by (simp add: stampsInv_def)
    next
      case True
      show ?thesis
      proof (cases "map_of (records t) (key v m)")
        case None
        with h True OpTrackFailure show ?thesis
          using clock_nonzero [OF clk] clock_Add_nonzero [OF clk]
          by (auto simp: TrackFailure_fresh Let_def IsZero_def zeroTime_def split: if_splits)
      next
        case (Some r0)
        with assms have "IsZero (DisabledAt r0) = IsZero (DisabledUntil r0)"
          by (simp add: stampsInv_def)
        with h True OpTrackFailure Some show ?thesis
          using clock_nonzero [OF clk] clock_Add_nonzero [OF clk]
          by (auto simp: TrackFailure_existing Let_def split: if_splits)
      qed
    qed
  qed
next
  case (OpTrackSuccess v m)
  with assms show ?thesis
    by (auto simp: stampsInv_def TrackSuccess_lookup split: if_splits)
next
  case (OpEnableModel v m)
  with assms show ?thesis
    by (auto simp: stampsInv_def EnableModel_lookup IsZero_def zeroTime_def split: if_splits)
next
  case (OpSweep now)
  with assms show ?thesis
    by (auto simp: stampsInv_def checkAndReenable_lookup IsZero_def zeroTime_def split: if_splits)
qed

lemma stampsInv_run:
  "list_all clockOK ops \<Longrightarrow> stampsInv (run (emptyTracker g) ops)"
proof (induction ops rule: rev_induct)
  case Nil
  show ?case by (simp add: run_Nil emptyTracker_def stampsInv_def)
next
  case (snoc op ops)
  then show ?case by (simp add: run_snoc stampsInv_step)
qed

text \<open>
  Claim C8. In every tracker reached from the empty store by \<open>TrackFailure\<close>,
  \<open>TrackSuccess\<close>, \<open>EnableModel\<close> and sweeps, in any order and for any pairs, with the
  clock read from the system clock, every record has \<open>disabledAt\<close> and \<open>disabledUntil\<close>
  both zero or both set.
\<close>

theorem C8_stamps_together:
  assumes "list_all clockOK ops"
    and "(k, r) \<in> set (records (run (emptyTracker g) ops))"
  shows "IsZero (DisabledAt r) = IsZero (DisabledUntil r)"
proof -
  from assms(2) have "map_of (records (run (emptyTracker g) ops)) k = Some r"
    by (simp add: keys_run)
  with stampsInv_run [OF assms(1)] show ?thesis by (simp add: stampsInv_def)
qed


theorem C8_stamps_together_witness:
  "list_all clockOK busyOps
   \<and> (''openai:gpt-4'',
        \<lparr>Vendor = ''openai'', Model = ''gpt-4'', FailureCount = 5,
         FirstFailure = 63900000000000000000, LastFailure = 63900000004000000000,
         DisabledAt = 63900000004000000000, DisabledUntil = 63900000304000000000,
         EffectiveConfig = defaultConfig\<rparr>) \<in> set (records (run (emptyTracker None) busyOps))
   \<and> \<not> IsZero (63900000004000000000 :: Time) \<and> \<not> IsZero (63900000304000000000 :: Time)
   \<and> (''claude:claude-3-opus'',
        \<lparr>Vendor = ''claude'', Model = ''claude-3-opus'', FailureCount = 0,
         FirstFailure = 0, LastFailure = 63900000000500000000,
         DisabledAt = 0, DisabledUntil = 0,
         EffectiveConfig = defaultConfig\<rparr>) \<in> set (records (run (emptyTracker None) busyOps))
   \<and> IsZero (0 :: Time)"
  using C8_stamps_together [of busyOps "''openai:gpt-4''"
      "\<lparr>Vendor = ''openai'', Model = ''gpt-4'', FailureCount = 5,
         FirstFailure = 63900000000000000000, LastFailure = 63900000004000000000,
         DisabledAt = 63900000004000000000, DisabledUntil = 63900000304000000000,
         EffectiveConfig = defaultConfig\<rparr>" None]
    C8_stamps_together [of busyOps "''claude:claude-3-opus''"
      "\<lparr>Vendor = ''claude'', Model = ''claude-3-opus'', FailureCount = 0,
         FirstFailure = 0, LastFailure = 63900000000500000000,
         DisabledAt = 0, DisabledUntil = 0,
         EffectiveConfig = defaultConfig\<rparr>" None]
  by (simp add: busyOps_run IsZero_def) (simp add: busyOps_def clockReading_def)

section \<open>The list of disabled models\<close>

lemma keyInv_step: "keyInv t \<Longrightarrow> keyInv (step t op)"
proof (cases op)
  case (OpTrackFailure v m now)
  assume inv: "keyInv t"
  show ?thesis
    unfolding keyInv_def
  proof (intro allI impI)
    fix k r
    assume h: "map_of (records (step t op)) k = Some r"
    show "k = key (Vendor r) (Model r)"
    proof (cases "k = key v m")
      case False
      with h OpTrackFailure have "map_of (records t) k = Some r"
        by (simp add: TrackFailure_other)
      with inv show ?thesis by (simp add: keyInv_def)
    next
      case True
      show ?thesis
      proof (cases "map_of (records t) (key v m)")
        case None
        with h True OpTrackFailure show ?thesis
          by (auto simp: TrackFailure_fresh Let_def split: if_splits)
      next
        case (Some r0)
        with inv have k0: "key v m = key (Vendor r0) (Model r0)"
          by (simp add: keyInv_def)
        from h True OpTrackFailure Some have "Vendor r = Vendor r0 \<and> Model r = Model r0"
          by (auto simp: TrackFailure_existing Let_def split: if_splits)
        with k0 True show ?thesis by simp
      qed
    qed
  qed
next
  case (OpTrackSuccess v m)
  assume "keyInv t"
  with OpTrackSuccess show ?thesis
    by (auto simp: keyInv_def TrackSuccess_lookup split: if_splits)
next
  case (OpEnableModel v m)
  assume "keyInv t"
  with OpEnableModel show ?thesis
    by (auto simp: keyInv_def EnableModel_lookup split: if_splits)
next
  case (OpSweep now)
  assume "keyInv t"
  with OpSweep show ?thesis
    by (auto simp: keyInv_def checkAndReenable_lookup split: if_splits)
qed

lemma keyInv_run: "keyInv (run (emptyTracker g) ops)"
proof (induction ops rule: rev_induct)
  case Nil
  show ?case by (simp add: run_Nil emptyTracker_def keyInv_def)
next
  case (snoc op ops)
  then show ?case by (simp add: run_snoc keyInv_step)
qed

lemma Add_le: "at \<le> now \<Longrightarrow> Add at d \<le> now + 9223372036854775807"
  using sint_lt [of d] by (simp add: Add_def)

lemma untilInv_step:
  assumes "untilInv now t" "notAfter now op" "clockReading now"
  shows "untilInv now (step t op)"
proof (cases op)
  case (OpTrackFailure v m at)
  with assms have le: "at \<le> now" by simp
  from assms(3) have pos: "zeroTime \<le> now + 9223372036854775807"
    by (simp add: clockReading_def zeroTime_def)
  show ?thesis
    unfolding untilInv_def
  proof (intro allI impI)
    fix k r
    assume h: "map_of (records (step t op)) k = Some r"
    show "DisabledUntil r \<le> now + 9223372036854775807"
    proof (cases "k = key v m")
      case False
      with h OpTrackFailure have "map_of (records t) k = Some r"
        by (simp add: TrackFailure_other)
      with assms show ?thesis by (simp add: untilInv_def)
    next
      case True
      show ?thesis
      proof (cases "map_of (records t) (key v m)")
        case None
        with h True OpTrackFailure show ?thesis
          using Add_le [OF le] pos
          by (auto simp: TrackFailure_fresh Let_def split: if_splits)
      next
        case (Some r0)
        with assms have "DisabledUntil r0 \<le> now + 9223372036854775807"
          by (simp add: untilInv_def)
        with h True OpTrackFailure Some show ?thesis
          using Add_le [OF le]
          by (auto simp: TrackFailure_existing Let_def split: if_splits)
      qed
    qed
  qed
next
  case (OpTrackSuccess v m)
  with assms show ?thesis
    by (auto simp: untilInv_def TrackSuccess_lookup split: if_splits)
next
  case (OpEnableModel v m)
  with assms show ?thesis
    by (auto simp: untilInv_def EnableModel_lookup clockReading_def zeroTime_def split: if_splits)
next
  case (OpSweep at)
  with assms show ?thesis
    by (auto simp: untilInv_def checkAndReenable_lookup clockReading_def zeroTime_def
        split: if_splits)
qed

lemma untilInv_run:
  "list_all (notAfter now) ops \<Longrightarrow> clockReading now \<Longrightarrow> untilInv now (run (emptyTracker g) ops)"
proof (induction ops rule: rev_induct)
  case Nil
  show ?case by (simp add: run_Nil emptyTracker_def untilInv_def)
next
  case (snoc op ops)
  then show ?case by (simp add: run_snoc untilInv_step)
qed

lemma key_inject:
  "CHR '':'' \<notin> set v \<Longrightarrow> CHR '':'' \<notin> set v' \<Longrightarrow> key v m = key v' m' \<Longrightarrow> v = v' \<and> m = m'"
proof (induction v arbitrary: v')
  case Nil
  then show ?case by (cases v') (auto simp: key_def)
next
  case (Cons c v)
  then show ?case by (cases v') (auto simp: key_def)
qed

lemma sint_word_of_int_64:
  "- 9223372036854775808 \<le> x \<Longrightarrow> x \<le> 9223372036854775807 \<Longrightarrow> sint (word_of_int x :: 64 word) = x"
  by (simp add: sint_sbintrunc' signed_take_bit_int_eq_self)

lemma Sub_in_range:
  assumes "0 \<le> a - b" "a - b \<le> 9223372036854775807"
  shows "sint (Sub a b) = a - b"
proof -
  have n1: "\<not> 9223372036854775807 < a - b" using assms by linarith
  have n2: "\<not> a - b < - 9223372036854775808" using assms by linarith
  have "Sub a b = word_of_int (a - b)"
    unfolding Sub_def using n1 n2 by (simp only: if_False)
  with assms show ?thesis by (simp only: sint_word_of_int_64)
qed

lemma GetDisabledModels_set:
  "dm \<in> set (GetDisabledModels t now untilNow) \<longleftrightarrow>
     (\<exists>k r. (k, r) \<in> set (records t) \<and> \<not> IsZero (DisabledAt r) \<and> Before now (DisabledUntil r)
        \<and> dm = \<lparr>dm_Vendor = Vendor r, dm_Model = Model r,
                 dm_FailureCount = scast (FailureCount r),
                 dm_DisabledAt = DisabledAt r, dm_DisabledUntil = DisabledUntil r,
                 dm_RemainingTime = Sub (DisabledUntil r) (untilNow k),
                 dm_FailureThreshold = FailureThreshold (EffectiveConfig r)\<rparr>)"
  by (auto simp: GetDisabledModels_def)

lemma IsDisabled_iff:
  "fst (IsDisabled t v m now) \<longleftrightarrow>
     (\<exists>r. map_of (records t) (key v m) = Some r \<and> \<not> IsZero (DisabledAt r)
        \<and> Before now (DisabledUntil r))"
  by (simp add: IsDisabled_def Let_def split: option.splits)

text \<open>
  What holds of the list, for the tracker reached by any run from the empty store and an
  instant \<open>now\<close>, read from the system clock and not before any reading of the run:
  every entry that \<open>GetDisabledModels\<close> returns at \<open>now\<close> names a pair for which
  \<open>IsDisabled\<close> is true at \<open>now\<close>, has \<open>disabledAt\<close> set and \<open>now\<close> before
  \<open>disabledUntil\<close>, and its \<open>remainingTime\<close> is \<open>disabledUntil\<close> minus \<open>now\<close>; for
  every pair for which \<open>IsDisabled\<close> is true an entry with the same key
  \<open>vendor:model\<close> is returned, and it names that very pair when neither vendor name
  contains a colon.
\<close>

lemma GetDisabledModels_exact_on_keys:
  assumes "list_all (notAfter now) ops" and "clockReading now"
  shows "(\<forall>dm \<in> set (GetDisabledModels (run (emptyTracker g) ops) now (atInstant now)).
            fst (IsDisabled (run (emptyTracker g) ops) (dm_Vendor dm) (dm_Model dm) now)
            \<and> \<not> IsZero (dm_DisabledAt dm) \<and> Before now (dm_DisabledUntil dm)
            \<and> sint (dm_RemainingTime dm) = dm_DisabledUntil dm - now)
         \<and> (fst (IsDisabled (run (emptyTracker g) ops) v m now) \<longrightarrow>
              (\<exists>dm \<in> set (GetDisabledModels (run (emptyTracker g) ops) now (atInstant now)).
                 key (dm_Vendor dm) (dm_Model dm) = key v m
                 \<and> (CHR '':'' \<notin> set v \<and> CHR '':'' \<notin> set (dm_Vendor dm) \<longrightarrow>
                      dm_Vendor dm = v \<and> dm_Model dm = m)))"
proof -
  define t where "t = run (emptyTracker g) ops"
  have dist: "distinct (map fst (records t))"
    unfolding t_def by (rule keys_run)
  have keys: "keyInv t"
    unfolding t_def by (rule keyInv_run)
  have until: "untilInv now t"
    unfolding t_def using assms by (rule untilInv_run)
  have sound: "fst (IsDisabled t (dm_Vendor dm) (dm_Model dm) now)
      \<and> \<not> IsZero (dm_DisabledAt dm) \<and> Before now (dm_DisabledUntil dm)
      \<and> sint (dm_RemainingTime dm) = dm_DisabledUntil dm - now"
    if "dm \<in> set (GetDisabledModels t now (atInstant now))" for dm
  proof -
    from that obtain k r where kr: "(k, r) \<in> set (records t)"
      and dis: "\<not> IsZero (DisabledAt r)" "Before now (DisabledUntil r)"
      and dm: "dm = \<lparr>dm_Vendor = Vendor r, dm_Model = Model r,
                 dm_FailureCount = scast (FailureCount r),
                 dm_DisabledAt = DisabledAt r, dm_DisabledUntil = DisabledUntil r,
                 dm_RemainingTime = Sub (DisabledUntil r) (atInstant now k),
                 dm_FailureThreshold = FailureThreshold (EffectiveConfig r)\<rparr>"
      unfolding GetDisabledModels_set by blast
    from kr dist have look: "map_of (records t) k = Some r" by simp
    with keys have k: "k = key (Vendor r) (Model r)" by (simp add: keyInv_def)
    from look until have "DisabledUntil r \<le> now + 9223372036854775807"
      by (simp add: untilInv_def)
    with dis(2) have "sint (Sub (DisabledUntil r) now) = DisabledUntil r - now"
      by (intro Sub_in_range) (simp_all add: Before_def)
    moreover have "fst (IsDisabled t (Vendor r) (Model r) now)"
      unfolding IsDisabled_iff using look k dis by auto
    ultimately show ?thesis using dis dm by (simp add: atInstant_def)
  qed
  have complete: "\<exists>dm \<in> set (GetDisabledModels t now (atInstant now)).
      key (dm_Vendor dm) (dm_Model dm) = key v m
      \<and> (CHR '':'' \<notin> set v \<and> CHR '':'' \<notin> set (dm_Vendor dm) \<longrightarrow>
           dm_Vendor dm = v \<and> dm_Model dm = m)"
    if "fst (IsDisabled t v m now)"
  proof -
    from that obtain r where look: "map_of (records t) (key v m) = Some r"
      and dis: "\<not> IsZero (DisabledAt r)" "Before now (DisabledUntil r)"
      unfolding IsDisabled_iff by blast
    let ?dm = "\<lparr>dm_Vendor = Vendor r, dm_Model = Model r,
                 dm_FailureCount = scast (FailureCount r),
                 dm_DisabledAt = DisabledAt r, dm_DisabledUntil = DisabledUntil r,
                 dm_RemainingTime = Sub (DisabledUntil r) (atInstant now (key v m)),
                 dm_FailureThreshold = FailureThreshold (EffectiveConfig r)\<rparr>"
    from look have "(key v m, r) \<in> set (records t)" by (rule map_of_SomeD)
    with dis have mem: "?dm \<in> set (GetDisabledModels t now (atInstant now))"
      unfolding GetDisabledModels_set by blast
    from look keys have k: "key v m = key (Vendor r) (Model r)" by (simp add: keyInv_def)
    then have "CHR '':'' \<notin> set v \<and> CHR '':'' \<notin> set (Vendor r) \<longrightarrow> Vendor r = v \<and> Model r = m"
      using key_inject [of v "Vendor r" m "Model r"] by auto
    with k mem show ?thesis by (intro bexI [of _ ?dm]) simp_all
  qed
  from sound complete show ?thesis unfolding t_def by blast
qed


lemma taggedModel_eq:
  "taggedModel =
     \<lparr>records = [(''ollama:llama3:8b'',
        \<lparr>Vendor = ''ollama'', Model = ''llama3:8b'', FailureCount = 5,
         FirstFailure = 63900000000000000000, LastFailure = 63900000004000000000,
         DisabledAt = 63900000004000000000, DisabledUntil = 63900000304000000000,
         EffectiveConfig = defaultConfig\<rparr>)],
      globalConfig = None\<rparr>"
  by (simp add: taggedModel_def run_def emptyTracker_def TrackFailure_def loadOrStore_def
      GetEffectiveConfig_def key_def Let_def zeroTime_def After_def Add_def Second_def
      defaultConfig_def)

lemma GetDisabledModels_fiveFailures:
  "list_all (notAfter 63900000005000000000)
     [OpTrackFailure ''openai'' ''gpt-4'' 63900000000000000000,
      OpTrackFailure ''openai'' ''gpt-4'' 63900000001000000000,
      OpTrackFailure ''openai'' ''gpt-4'' 63900000002000000000,
      OpTrackFailure ''openai'' ''gpt-4'' 63900000003000000000,
      OpTrackFailure ''openai'' ''gpt-4'' 63900000004000000000]
   \<and> clockReading 63900000005000000000
   \<and> GetDisabledModels fiveFailures 63900000005000000000 (atInstant 63900000005000000000)
       = [\<lparr>dm_Vendor = ''openai'', dm_Model = ''gpt-4'', dm_FailureCount = 5,
           dm_DisabledAt = 63900000004000000000, dm_DisabledUntil = 63900000304000000000,
           dm_RemainingTime = 299000000000, dm_FailureThreshold = 5\<rparr>]
   \<and> fst (IsDisabled fiveFailures ''openai'' ''gpt-4'' 63900000005000000000)
   \<and> sint (299000000000 :: Duration) = 63900000304000000000 - 63900000005000000000"
  using GetDisabledModels_exact_on_keys [of 63900000005000000000
      "[OpTrackFailure ''openai'' ''gpt-4'' 63900000000000000000,
        OpTrackFailure ''openai'' ''gpt-4'' 63900000001000000000,
        OpTrackFailure ''openai'' ''gpt-4'' 63900000002000000000,
        OpTrackFailure ''openai'' ''gpt-4'' 63900000003000000000,
        OpTrackFailure ''openai'' ''gpt-4'' 63900000004000000000]"
      None "''openai''" "''gpt-4''", folded fiveFailures_def]
  by (simp add: fiveFailures_eq clockReading_def GetDisabledModels_def IsDisabled_def key_def
      IsZero_def Before_def atInstant_def Sub_def defaultConfig_def)

text \<open>
  Claim C7. At any single instant \<open>GetDisabledModels\<close> returns exactly the pairs for which
  \<open>IsDisabled\<close> is true at that instant. The code breaks this for pairs that share a
  key, although the comment of \<open>key\<close> calls the key unique for the pair: after five
  failures of model \<open>llama3:8b\<close> of vendor \<open>ollama\<close>, \<open>IsDisabled\<close> is true also for
  model \<open>8b\<close> of vendor \<open>ollama:llama3\<close>, which has the same key \<open>ollama:llama3:8b\<close>,
  and the list has the one entry of the record, which names the first pair only.
\<close>

theorem C7_GetDisabledModels_key_collision:
  "key ''ollama:llama3'' ''8b'' = key ''ollama'' ''llama3:8b''
   \<and> fst (IsDisabled taggedModel ''ollama:llama3'' ''8b'' 63900000005000000000)
   \<and> fst (IsDisabled taggedModel ''ollama'' ''llama3:8b'' 63900000005000000000)
   \<and> GetDisabledModels taggedModel 63900000005000000000 (atInstant 63900000005000000000)
       = [\<lparr>dm_Vendor = ''ollama'', dm_Model = ''llama3:8b'', dm_FailureCount = 5,
           dm_DisabledAt = 63900000004000000000, dm_DisabledUntil = 63900000304000000000,
           dm_RemainingTime = 299000000000, dm_FailureThreshold = 5\<rparr>]"
  by (simp add: taggedModel_eq GetDisabledModels_def IsDisabled_def key_def
      IsZero_def Before_def atInstant_def Sub_def defaultConfig_def)

section \<open>Reaching the threshold\<close>

lemma globalConfig_step: "globalConfig (step t op) = globalConfig t"
  by (cases op)
    (simp_all add: globalConfig_TrackFailure TrackSuccess_def EnableModel_def checkAndReenable_def
      Let_def split: option.splits)

lemma globalConfig_run: "globalConfig (run t ops) = globalConfig t"
  by (induction ops rule: rev_induct) (simp_all add: run_Nil run_snoc globalConfig_step)

lemma GetEffectiveConfig_run: "GetEffectiveConfig (run t ops) v m = GetEffectiveConfig t v m"
  by (simp add: GetEffectiveConfig_def globalConfig_run)

lemma failures_state:
  assumes "map_of (records t) (key v m) = None" and "ts \<noteq> []"
  shows "\<exists>r. map_of (records (run t (map (OpTrackFailure v m) ts))) (key v m) = Some r
           \<and> FirstFailure r = hd ts
           \<and> FailureCount r = of_nat (length ts)
           \<and> (int (length ts) < sint (FailureThreshold (GetEffectiveConfig t v m))
                \<longrightarrow> DisabledAt r = zeroTime)"
  using assms(2)
proof (induction ts rule: rev_nonempty_induct)
  case (single x)
  show ?case
    using assms(1)
    by (auto simp: run_def TrackFailure_fresh Let_def)
next
  case (snoc x xs)
  let ?t = "run t (map (OpTrackFailure v m) xs)"
  from snoc.IH obtain r where r: "map_of (records ?t) (key v m) = Some r"
    and first: "FirstFailure r = hd xs"
    and count: "FailureCount r = of_nat (length xs)"
    and en: "int (length xs) < sint (FailureThreshold (GetEffectiveConfig t v m))
                \<longrightarrow> DisabledAt r = zeroTime"
    by blast
  let ?cfg = "GetEffectiveConfig t v m"
  let ?r2 = "r\<lparr>FailureCount := FailureCount r + 1, LastFailure := x\<rparr>"
  let ?r3 = "if After (FirstFailure r) (Add x (- TimeWindowSeconds ?cfg * Second))
                \<and> sint (FailureThreshold ?cfg) \<le> sint (FailureCount r + 1)
             then ?r2\<lparr>DisabledAt := x,
                      DisabledUntil := Add x (DisableDurationSeconds ?cfg * Second)\<rparr>
             else ?r2"
  have cnt: "FailureCount r + 1 = of_nat (length (xs @ [x]))"
    using count by simp
  have le: "sint (FailureCount r + 1) \<le> int (length (xs @ [x]))"
    unfolding cnt by (rule sint_of_nat_32_le)
  have "run t (map (OpTrackFailure v m) (xs @ [x])) = fst (TrackFailure ?t v m x)"
    by (simp add: run_snoc)
  then have look: "map_of (records (run t (map (OpTrackFailure v m) (xs @ [x])))) (key v m)
      = Some ?r3"
    by (simp only: TrackFailure_existing [OF r] GetEffectiveConfig_run Let_def)
  have "FirstFailure ?r3 = hd (xs @ [x])"
    using first snoc.hyps by simp
  moreover have "FailureCount ?r3 = of_nat (length (xs @ [x]))"
    unfolding cnt by simp
  moreover have "DisabledAt ?r3 = zeroTime"
    if lt: "int (length (xs @ [x])) < sint (FailureThreshold ?cfg)"
  proof -
    from lt le have "\<not> sint (FailureThreshold ?cfg) \<le> sint (FailureCount r + 1)"
      by linarith
    moreover from lt en have "DisabledAt r = zeroTime" by simp
    ultimately show ?thesis by simp
  qed
  ultimately show ?case using look by blast
qed

lemma failures_reach_threshold:
  assumes none: "map_of (records t) (key v m) = None"
    and cfg: "cfg = GetEffectiveConfig t v m"
    and thr: "1 \<le> sint (FailureThreshold cfg)" "sint (FailureThreshold cfg) \<le> 2147483647"
    and win: "- 9223372036 \<le> sint (TimeWindowSeconds cfg)"
             "sint (TimeWindowSeconds cfg) \<le> 9223372036"
    and len: "length ts = nat (sint (FailureThreshold cfg))"
    and within: "last ts - hd ts < sint (TimeWindowSeconds cfg) * 1000000000"
  shows "\<exists>r. map_of (records (run t (map (OpTrackFailure v m) ts))) (key v m) = Some r
           \<and> DisabledAt r = last ts
           \<and> DisabledUntil r = Add (last ts) (DisableDurationSeconds cfg * Second)"
proof -
  from thr len have "ts \<noteq> []" by auto
  then obtain xs x where ts: "ts = xs @ [x]"
    by (metis rev_exhaust)
  have wneg: "sint (- TimeWindowSeconds cfg * Second) = - (sint (TimeWindowSeconds cfg) * 1000000000)"
    using win by (rule sint_neg_seconds)
  show ?thesis
  proof (cases "xs = []")
    case True
    with len ts thr have one: "sint (FailureThreshold cfg) = 1" by simp
    from within ts True have "0 < sint (TimeWindowSeconds cfg) * 1000000000" by simp
    then have "After x (Add x (- TimeWindowSeconds cfg * Second))"
      unfolding After_def Add_def wneg by simp
    with one show ?thesis
      using none cfg ts True
      by (simp add: run_def TrackFailure_fresh Let_def)
  next
    case False
    let ?t = "run t (map (OpTrackFailure v m) xs)"
    from failures_state [OF none False] obtain r
      where r: "map_of (records ?t) (key v m) = Some r"
        and first: "FirstFailure r = hd xs"
        and count: "FailureCount r = of_nat (length xs)"
      by blast
    have "FailureCount r + 1 = of_nat (length ts)"
      using count ts by simp
    moreover have "length ts < 2 ^ 31"
      using len thr by simp
    ultimately have "sint (FailureCount r + 1) = int (length ts)"
      by (simp only: sint_of_nat_32)
    with len thr have c2: "sint (FailureThreshold cfg) \<le> sint (FailureCount r + 1)"
      by simp
    from within ts False have "x - hd xs < sint (TimeWindowSeconds cfg) * 1000000000"
      by simp
    then have c1: "After (FirstFailure r) (Add x (- TimeWindowSeconds cfg * Second))"
      unfolding After_def Add_def wneg first by simp
    have "run t (map (OpTrackFailure v m) ts) = fst (TrackFailure ?t v m x)"
      by (simp add: ts run_snoc)
    then show ?thesis
      using c1 c2 ts
      by (simp add: TrackFailure_existing [OF r] GetEffectiveConfig_run cfg [symmetric] Let_def)
  qed
qed

lemma failures_never_reach:
  assumes "map_of (records t) (key v m) = None"
    and "2147483647 < sint (FailureThreshold (GetEffectiveConfig t v m))"
  shows "\<not> fst (IsDisabled (run t (map (OpTrackFailure v m) ts)) v m q)"
proof (cases "ts = []")
  case True
  with assms(1) show ?thesis by (simp add: run_Nil IsDisabled_iff)
next
  case False
  have "\<exists>r. map_of (records (run t (map (OpTrackFailure v m) ts))) (key v m) = Some r
           \<and> DisabledAt r = zeroTime"
    using False
  proof (induction ts rule: rev_nonempty_induct)
    case (single x)
    show ?case
      using assms by (auto simp: run_def TrackFailure_fresh Let_def)
  next
    case (snoc x xs)
    let ?t = "run t (map (OpTrackFailure v m) xs)"
    from snoc.IH obtain r where r: "map_of (records ?t) (key v m) = Some r"
      and en: "DisabledAt r = zeroTime"
      by blast
    have "\<not> sint (FailureThreshold (GetEffectiveConfig t v m)) \<le> sint (FailureCount r + 1)"
      using sint_le_32 [of "FailureCount r + 1"] assms(2) by linarith
    moreover have "run t (map (OpTrackFailure v m) (xs @ [x])) = fst (TrackFailure ?t v m x)"
      by (simp add: run_snoc)
    ultimately show ?case
      using en by (simp add: TrackFailure_existing [OF r] GetEffectiveConfig_run Let_def)
  qed
  then show ?thesis by (auto simp: IsDisabled_iff IsZero_def zeroTime_def)
qed

lemma failureTimes_append:
  "failureTimes v m (ops @ ops') = failureTimes v m ops @ failureTimes v m ops'"
  by (induction v m ops rule: failureTimes.induct) simp_all

lemma failureTimes_map: "failureTimes v m (map (OpTrackFailure v m) ts) = ts"
  by (induction ts) simp_all

lemma TrackFailure_lookup_cong:
  assumes "map_of (records t) (key v m) = map_of (records t') (key v m)"
    and "GetEffectiveConfig t v m = GetEffectiveConfig t' v m"
  shows "map_of (records (fst (TrackFailure t v m now))) (key v m)
       = map_of (records (fst (TrackFailure t' v m now))) (key v m)"
proof (cases "map_of (records t) (key v m)")
  case None
  with assms(1) have "map_of (records t') (key v m) = None" by simp
  with None assms(2) show ?thesis by (simp add: TrackFailure_fresh)
next
  case (Some r)
  with assms(1) have "map_of (records t') (key v m) = Some r" by simp
  with Some assms(2) show ?thesis by (simp add: TrackFailure_existing)
qed

lemma step_elsewhere:
  assumes "noIntervening v m op" and "failureTimes v m [op] = []"
    and "map_of (records t) (key v m) = None
         \<or> (\<exists>r. map_of (records t) (key v m) = Some r \<and> DisabledAt r = zeroTime)"
  shows "map_of (records (step t op)) (key v m) = map_of (records t) (key v m)"
proof (cases op)
  case (OpTrackFailure vendor model now)
  with assms(1,2) have "key v m \<noteq> key vendor model"
    by (auto split: if_splits)
  with OpTrackFailure show ?thesis by (simp add: TrackFailure_other)
next
  case (OpTrackSuccess vendor model)
  with assms(1) show ?thesis by (simp add: TrackSuccess_lookup)
next
  case (OpEnableModel vendor model)
  with assms(1) show ?thesis by (simp add: EnableModel_lookup)
next
  case (OpSweep now)
  with assms(3) show ?thesis
    by (auto simp: checkAndReenable_lookup IsZero_def zeroTime_def)
qed

lemma run_projection:
  assumes none: "map_of (records t) (key v m) = None"
    and ops: "list_all (noIntervening v m) ops"
    and few: "int (length (failureTimes v m ops)) < sint (FailureThreshold (GetEffectiveConfig t v m))"
  shows "map_of (records (run t ops)) (key v m)
       = map_of (records (run t (map (OpTrackFailure v m) (failureTimes v m ops)))) (key v m)"
  using ops few
proof (induction ops rule: rev_induct)
  case Nil
  show ?case by (simp add: run_Nil)
next
  case (snoc op ops)
  let ?ts = "failureTimes v m ops"
  let ?pure = "run t (map (OpTrackFailure v m) ?ts)"
  from snoc.prems have few': "int (length ?ts) < sint (FailureThreshold (GetEffectiveConfig t v m))"
    by (simp add: failureTimes_append)
  from snoc have IH: "map_of (records (run t ops)) (key v m) = map_of (records ?pure) (key v m)"
    by (simp add: failureTimes_append)
  have enabled: "map_of (records ?pure) (key v m) = None
      \<or> (\<exists>r. map_of (records ?pure) (key v m) = Some r \<and> DisabledAt r = zeroTime)"
  proof (cases "?ts = []")
    case True
    with none show ?thesis by (simp add: run_Nil)
  next
    case False
    from failures_state [OF none False] few' show ?thesis by blast
  qed
  show ?case
  proof (cases "failureTimes v m [op] = []")
    case True
    from snoc.prems have "noIntervening v m op" by simp
    from step_elsewhere [OF this True, of "run t ops"] enabled IH
    have "map_of (records (step (run t ops) op)) (key v m) = map_of (records ?pure) (key v m)"
      by simp
    with True show ?thesis by (simp add: run_snoc failureTimes_append)
  next
    case False
    then obtain now where op: "op = OpTrackFailure v m now"
      by (cases op) (auto split: if_splits)
    have "map_of (records (fst (TrackFailure (run t ops) v m now))) (key v m)
        = map_of (records (fst (TrackFailure ?pure v m now))) (key v m)"
      using IH by (intro TrackFailure_lookup_cong) (simp_all add: GetEffectiveConfig_run)
    with op show ?thesis by (simp add: run_snoc failureTimes_append)
  qed
qed

lemma IsDisabled_cong:
  "map_of (records t) (key v m) = map_of (records t') (key v m) \<Longrightarrow>
     IsDisabled t v m q = IsDisabled t' v m q"
  by (simp add: IsDisabled_def)

text \<open>
  Claim C1, as amended. Start from a tracker with no record for the pair and run any
  operations among which none is a \<open>TrackSuccess\<close> or an \<open>EnableModel\<close> on the pair's
  key, nor a failure of a different pair that has the same key (the pair's own failures,
  operations on other keys and sweeps may come in any order). Let the effective config
  have a threshold between 1 and 2147483647 (the count is an \<open>int32\<close>), a window whose
  nanoseconds fit an \<open>int64\<close> (at most 9223372036 seconds in absolute value) and a
  disable duration between 1 and 9223372036 seconds. If the run ends with the pair's
  threshold-th failure, its reading taken from the system clock, and that failure comes
  less than the window after the pair's first, then in the tracker so reached
  \<open>IsDisabled\<close> is true at the reading of that failure, and at any instant it is true
  exactly when the instant is before that reading plus the disable duration.
  If the pair has failed fewer times than the threshold, whatever the config,
  \<open>IsDisabled\<close> is false.
\<close>

theorem C1_threshold:
  assumes "map_of (records t) (key v m) = None"
    and "cfg = GetEffectiveConfig t v m"
    and "list_all (noIntervening v m) ops"
    and "ts = failureTimes v m ops"
  shows "(1 \<le> sint (FailureThreshold cfg) \<and> sint (FailureThreshold cfg) \<le> 2147483647
          \<and> - 9223372036 \<le> sint (TimeWindowSeconds cfg)
          \<and> sint (TimeWindowSeconds cfg) \<le> 9223372036
          \<and> 1 \<le> sint (DisableDurationSeconds cfg)
          \<and> sint (DisableDurationSeconds cfg) \<le> 9223372036
          \<and> length ts = nat (sint (FailureThreshold cfg))
          \<and> last ops = OpTrackFailure v m (last ts)
          \<and> clockReading (last ts)
          \<and> last ts - hd ts < sint (TimeWindowSeconds cfg) * 1000000000
          \<longrightarrow> fst (IsDisabled (run t ops) v m (last ts))
              \<and> fst (IsDisabled (run t ops) v m q)
                  = (q < last ts + sint (DisableDurationSeconds cfg) * 1000000000))
       \<and> (int (length ts) < sint (FailureThreshold cfg)
          \<longrightarrow> \<not> fst (IsDisabled (run t ops) v m q))"
proof (intro conjI impI)
  assume h: "1 \<le> sint (FailureThreshold cfg) \<and> sint (FailureThreshold cfg) \<le> 2147483647
          \<and> - 9223372036 \<le> sint (TimeWindowSeconds cfg)
          \<and> sint (TimeWindowSeconds cfg) \<le> 9223372036
          \<and> 1 \<le> sint (DisableDurationSeconds cfg)
          \<and> sint (DisableDurationSeconds cfg) \<le> 9223372036
          \<and> length ts = nat (sint (FailureThreshold cfg))
          \<and> last ops = OpTrackFailure v m (last ts)
          \<and> clockReading (last ts)
          \<and> last ts - hd ts < sint (TimeWindowSeconds cfg) * 1000000000"
  then have "ts \<noteq> []" by auto
  with assms(4) have "ops \<noteq> []" by auto
  with h obtain pre where ops: "ops = pre @ [OpTrackFailure v m (last ts)]"
    by (metis append_butlast_last_id)
  let ?ts' = "failureTimes v m pre"
  let ?pure = "run t (map (OpTrackFailure v m) ?ts')"
  have ts: "ts = ?ts' @ [last ts]"
    using assms(4) ops by (simp add: failureTimes_append)
  with h have few: "int (length ?ts') < sint (FailureThreshold (GetEffectiveConfig t v m))"
  proof -
    from ts have "length ts = Suc (length ?ts')"
      by (metis length_append_singleton)
    with h show ?thesis unfolding assms(2) [symmetric] by linarith
  qed
  from assms(3) ops have "list_all (noIntervening v m) pre" by simp
  from run_projection [OF assms(1) this few]
  have "map_of (records (run t pre)) (key v m) = map_of (records ?pure) (key v m)" .
  then have "map_of (records (fst (TrackFailure (run t pre) v m (last ts)))) (key v m)
      = map_of (records (fst (TrackFailure ?pure v m (last ts)))) (key v m)"
    by (intro TrackFailure_lookup_cong) (simp_all add: GetEffectiveConfig_run)
  moreover have "run t ops = fst (TrackFailure (run t pre) v m (last ts))"
    by (subst ops) (simp add: run_snoc)
  moreover have "run t (map (OpTrackFailure v m) ts) = fst (TrackFailure ?pure v m (last ts))"
    by (subst ts) (simp add: run_snoc)
  ultimately have same: "map_of (records (run t ops)) (key v m)
      = map_of (records (run t (map (OpTrackFailure v m) ts))) (key v m)"
    by simp
  from h obtain r
    where r: "map_of (records (run t (map (OpTrackFailure v m) ts))) (key v m) = Some r"
      and at: "DisabledAt r = last ts"
      and until: "DisabledUntil r = Add (last ts) (DisableDurationSeconds cfg * Second)"
    using failures_reach_threshold [OF assms(1,2), of ts] by blast
  from h have "sint (DisableDurationSeconds cfg * Second)
      = sint (DisableDurationSeconds cfg) * 1000000000"
    by (intro sint_seconds) simp_all
  with until have until': "DisabledUntil r
      = last ts + sint (DisableDurationSeconds cfg) * 1000000000"
    by (simp add: Add_def)
  from h at have set: "\<not> IsZero (DisabledAt r)"
    by (simp add: clock_nonzero)
  have dis: "fst (IsDisabled (run t ops) v m q')
      = (q' < last ts + sint (DisableDurationSeconds cfg) * 1000000000)" for q'
    using r same set until' unfolding IsDisabled_iff by (simp add: Before_def)
  from h show "fst (IsDisabled (run t ops) v m (last ts))"
    unfolding dis by simp
  show "fst (IsDisabled (run t ops) v m q)
      = (q < last ts + sint (DisableDurationSeconds cfg) * 1000000000)"
    by (rule dis)
next
  assume lt: "int (length ts) < sint (FailureThreshold cfg)"
  with assms have same: "map_of (records (run t ops)) (key v m)
      = map_of (records (run t (map (OpTrackFailure v m) ts))) (key v m)"
    using run_projection [of t v m ops] by simp
  have "\<not> fst (IsDisabled (run t (map (OpTrackFailure v m) ts)) v m q)"
  proof (cases "ts = []")
    case True
    with assms(1) show ?thesis by (simp add: run_Nil IsDisabled_iff)
  next
    case False
    from failures_state [OF assms(1) False] lt assms(2) obtain r
      where "map_of (records (run t (map (OpTrackFailure v m) ts))) (key v m) = Some r"
        and "DisabledAt r = zeroTime"
      by blast
    then show ?thesis by (simp add: IsDisabled_iff IsZero_def zeroTime_def)
  qed
  with same show "\<not> fst (IsDisabled (run t ops) v m q)"
    by (simp add: IsDisabled_iff)
qed

theorem C1_threshold_witness:
  "map_of (records (emptyTracker None)) (key ''openai'' ''gpt-4'') = None
   \<and> GetEffectiveConfig (emptyTracker None) ''openai'' ''gpt-4''
       = \<lparr>FailureThreshold = 5, TimeWindowSeconds = 60, DisableDurationSeconds = 300\<rparr>
   \<and> list_all (noIntervening ''openai'' ''gpt-4'') busyOps
   \<and> failureTimes ''openai'' ''gpt-4'' busyOps
       = [63900000000000000000, 63900000001000000000, 63900000002000000000,
          63900000003000000000, 63900000004000000000]
   \<and> fst (IsDisabled (run (emptyTracker None) busyOps) ''openai'' ''gpt-4''
            63900000004000000000)
   \<and> fst (IsDisabled (run (emptyTracker None) busyOps) ''openai'' ''gpt-4''
            63900000303999999999)
   \<and> \<not> fst (IsDisabled (run (emptyTracker None) busyOps) ''openai'' ''gpt-4''
              63900000304000000000)
   \<and> \<not> fst (IsDisabled (run (emptyTracker None) (butlast busyOps)) ''openai'' ''gpt-4''
              63900000003000000000)"
  using C1_threshold [of "emptyTracker None" "''openai''" "''gpt-4''"
      "\<lparr>FailureThreshold = 5, TimeWindowSeconds = 60, DisableDurationSeconds = 300\<rparr>"
      busyOps
      "[63900000000000000000, 63900000001000000000, 63900000002000000000,
        63900000003000000000, 63900000004000000000]" 63900000303999999999]
    C1_threshold [of "emptyTracker None" "''openai''" "''gpt-4''"
      "\<lparr>FailureThreshold = 5, TimeWindowSeconds = 60, DisableDurationSeconds = 300\<rparr>"
      busyOps
      "[63900000000000000000, 63900000001000000000, 63900000002000000000,
        63900000003000000000, 63900000004000000000]" 63900000304000000000]
    C1_threshold [of "emptyTracker None" "''openai''" "''gpt-4''"
      "\<lparr>FailureThreshold = 5, TimeWindowSeconds = 60, DisableDurationSeconds = 300\<rparr>"
      "butlast busyOps"
      "[63900000000000000000, 63900000001000000000, 63900000002000000000,
        63900000003000000000]" 63900000003000000000]
  by (simp add: busyOps_def emptyTracker_def GetEffectiveConfig_def key_def
      clockReading_def)

text \<open>
  The claim as stated fails outside those ranges. With a threshold of 2147483648 the
  count, an \<open>int32\<close>, never reaches the threshold: after 2147483648 failures at one
  instant the pair is not disabled. With a threshold of 1 and a window of 9999999999
  seconds, \<open>- Duration(window) * Second\<close> wraps around to a positive duration, the
  window starts in the future, and the pair is not disabled after its one failure. With
  a threshold of 1 and a disable duration of 9999999999 seconds,
  \<open>Duration(duration) * Second\<close> wraps around to a negative duration, \<open>disabledUntil\<close>
  lies in the past, and \<open>IsDisabled\<close> is false at the reading of the failure itself.
\<close>

theorem C1_threshold_counterexample:
  "FailureThreshold (GetEffectiveConfig hugeThreshold ''openai'' ''gpt-4'') = 2147483648
   \<and> length (replicate 2147483648 (63900000000000000000 :: Time)) = 2147483648
   \<and> \<not> fst (IsDisabled
              (run hugeThreshold
                 (map (OpTrackFailure ''openai'' ''gpt-4'')
                    (replicate 2147483648 63900000000000000000)))
              ''openai'' ''gpt-4'' 63900000000000000000)
   \<and> FailureThreshold (GetEffectiveConfig hugeWindow ''openai'' ''gpt-4'') = 1
   \<and> TimeWindowSeconds (GetEffectiveConfig hugeWindow ''openai'' ''gpt-4'') = 9999999999
   \<and> \<not> fst (IsDisabled
              (run hugeWindow [OpTrackFailure ''openai'' ''gpt-4'' 63900000000000000000])
              ''openai'' ''gpt-4'' 63900000000000000000)
   \<and> FailureThreshold (GetEffectiveConfig hugeDuration ''openai'' ''gpt-4'') = 1
   \<and> DisableDurationSeconds (GetEffectiveConfig hugeDuration ''openai'' ''gpt-4'')
       = 9999999999
   \<and> \<not> fst (IsDisabled
              (run hugeDuration [OpTrackFailure ''openai'' ''gpt-4'' 63900000000000000000])
              ''openai'' ''gpt-4'' 63900000000000000000)"
proof -
  have cfg: "GetEffectiveConfig hugeThreshold ''openai'' ''gpt-4''
      = \<lparr>FailureThreshold = 2147483648, TimeWindowSeconds = 60,
         DisableDurationSeconds = 300\<rparr>"
    by (simp add: hugeThreshold_def emptyTracker_def GetEffectiveConfig_def
        AutoDisableConfig_GetEffectiveConfig_def)
  have "\<not> fst (IsDisabled
              (run hugeThreshold
                 (map (OpTrackFailure ''openai'' ''gpt-4'')
                    (replicate 2147483648 63900000000000000000)))
              ''openai'' ''gpt-4'' 63900000000000000000)"
    by (rule failures_never_reach) (simp_all add: cfg, simp add: hugeThreshold_def emptyTracker_def)
  moreover have "\<not> fst (IsDisabled
              (run hugeWindow [OpTrackFailure ''openai'' ''gpt-4'' 63900000000000000000])
              ''openai'' ''gpt-4'' 63900000000000000000)"
    by (simp add: hugeWindow_def run_def emptyTracker_def TrackFailure_def loadOrStore_def
      GetEffectiveConfig_def AutoDisableConfig_GetEffectiveConfig_def key_def Let_def
      zeroTime_def After_def Add_def Second_def IsDisabled_def IsZero_def)
  moreover have "GetEffectiveConfig hugeWindow ''openai'' ''gpt-4''
      = \<lparr>FailureThreshold = 1, TimeWindowSeconds = 9999999999,
         DisableDurationSeconds = 300\<rparr>"
    by (simp add: hugeWindow_def emptyTracker_def GetEffectiveConfig_def
        AutoDisableConfig_GetEffectiveConfig_def)
  moreover have "\<not> fst (IsDisabled
              (run hugeDuration [OpTrackFailure ''openai'' ''gpt-4'' 63900000000000000000])
              ''openai'' ''gpt-4'' 63900000000000000000)"
    by (simp add: hugeDuration_def run_def emptyTracker_def TrackFailure_def loadOrStore_def
      GetEffectiveConfig_def AutoDisableConfig_GetEffectiveConfig_def key_def Let_def
      zeroTime_def After_def Before_def Add_def Second_def IsDisabled_def IsZero_def)
  moreover have "GetEffectiveConfig hugeDuration ''openai'' ''gpt-4''
      = \<lparr>FailureThreshold = 1, TimeWindowSeconds = 60,
         DisableDurationSeconds = 9999999999\<rparr>"
    by (simp add: hugeDuration_def emptyTracker_def GetEffectiveConfig_def
        AutoDisableConfig_GetEffectiveConfig_def)
  ultimately show ?thesis using cfg by simp
qed

text \<open>
  Why the claim starts from a pair with no record: \<open>TrackFailure\<close> sets \<open>firstFailure\<close>
  only when it creates the record. Once \<open>TrackSuccess\<close>, \<open>EnableModel\<close> or the sweep has
  cleared \<open>firstFailure\<close>, it stays at the zero time, which is never after the start of
  a window, and no number of further failures disables the pair.
\<close>

lemma zero_not_After: "clockReading now \<Longrightarrow> \<not> After zeroTime (Add now d)"
  using sint_ge [of d] by (simp add: clockReading_def After_def Add_def zeroTime_def)

lemma reset_record_stays_enabled:
  assumes "map_of (records t) (key v m) = Some r"
    and "FirstFailure r = zeroTime" and "DisabledAt r = zeroTime"
    and "list_all clockReading ts"
  shows "\<not> fst (IsDisabled (run t (map (OpTrackFailure v m) ts)) v m q)"
proof -
  have "\<exists>r'. map_of (records (run t (map (OpTrackFailure v m) ts))) (key v m) = Some r'
           \<and> FirstFailure r' = zeroTime \<and> DisabledAt r' = zeroTime"
    using assms(4)
  proof (induction ts rule: rev_induct)
    case Nil
    with assms show ?case by (simp add: run_Nil)
  next
    case (snoc x xs)
    let ?t = "run t (map (OpTrackFailure v m) xs)"
    from snoc obtain r' where r': "map_of (records ?t) (key v m) = Some r'"
      and first: "FirstFailure r' = zeroTime" and en: "DisabledAt r' = zeroTime"
      by auto
    from snoc.prems have "clockReading x" by simp
    then have "\<not> After (FirstFailure r')
        (Add x (- TimeWindowSeconds (GetEffectiveConfig ?t v m) * Second))"
      unfolding first by (rule zero_not_After)
    moreover have "run t (map (OpTrackFailure v m) (xs @ [x])) = fst (TrackFailure ?t v m x)"
      by (simp add: run_snoc)
    ultimately show ?case
      using first en by (simp add: TrackFailure_existing [OF r'] Let_def)
  qed
  then show ?thesis by (auto simp: IsDisabled_iff IsZero_def zeroTime_def)
qed

end
